theory Spec2Isabelle
  imports Main "HOL-Library.AList" "HOL-Library.Sublist"
begin

chapter \<open>Vocabulary Quadrant: the search request and the saved words\<close>

text \<open>
  The application looks a word up with a hosted language model and keeps a list of saved
  words in the local storage of the browser. This theory follows its code:
  \<^item> \<open>src/App.tsx\<close>: the state of the component, its two effects on \<open>localStorage\<close> and
    its handlers; the interfaces of \<open>types.ts\<close> stand at the end of that file;
  \<^item> \<open>src/unnamed/part_000\<close>, imported by \<open>App.tsx\<close> as \<open>./services/geminiService\<close>:
    \<open>fetchWordDetails\<close>.
  What the code takes from its platform is modelled first: strings with \<open>trim\<close> and
  \<open>toLowerCase\<close>, JSON values with \<open>JSON.stringify\<close> and \<open>JSON.parse\<close>, the
  conversions and property reads that the code applies to parsed values, and
  \<open>localStorage\<close>. Then come the program, the properties of the model, and the claims
  C1 to C10 about the program.
\<close>

section \<open>Strings of the host language\<close>

text \<open>
  A string is a list of code units. The model covers the code units U+0000 to U+00FF
  (one \<^typ>\<open>char\<close> each); equality of strings is equality of the lists, as \<open>===\<close> is
  on JavaScript strings.
\<close>

definition whiteSpace :: "char list" where
  "whiteSpace = [CHR 0x09, CHR 0x0A, CHR 0x0B, CHR 0x0C, CHR 0x0D, CHR 0x20, CHR 0xA0]"

definition isWhiteSpace :: "char \<Rightarrow> bool" where
  "isWhiteSpace c = (c \<in> set whiteSpace)"

text \<open>\<open>String.prototype.trim\<close>: white space and line terminators go, at both ends.\<close>

definition trim :: "string \<Rightarrow> string" where
  "trim s = rev (dropWhile isWhiteSpace (rev (dropWhile isWhiteSpace s)))"

definition upperCase :: "char list" where
  "upperCase = ''ABCDEFGHIJKLMNOPQRSTUVWXYZ'' @
     [CHR 0xC0, CHR 0xC1, CHR 0xC2, CHR 0xC3, CHR 0xC4, CHR 0xC5, CHR 0xC6, CHR 0xC7,
      CHR 0xC8, CHR 0xC9, CHR 0xCA, CHR 0xCB, CHR 0xCC, CHR 0xCD, CHR 0xCE, CHR 0xCF,
      CHR 0xD0, CHR 0xD1, CHR 0xD2, CHR 0xD3, CHR 0xD4, CHR 0xD5, CHR 0xD6,
      CHR 0xD8, CHR 0xD9, CHR 0xDA, CHR 0xDB, CHR 0xDC, CHR 0xDD, CHR 0xDE]"

definition lowerCase :: "char list" where
  "lowerCase = ''abcdefghijklmnopqrstuvwxyz'' @
     [CHR 0xE0, CHR 0xE1, CHR 0xE2, CHR 0xE3, CHR 0xE4, CHR 0xE5, CHR 0xE6, CHR 0xE7,
      CHR 0xE8, CHR 0xE9, CHR 0xEA, CHR 0xEB, CHR 0xEC, CHR 0xED, CHR 0xEE, CHR 0xEF,
      CHR 0xF0, CHR 0xF1, CHR 0xF2, CHR 0xF3, CHR 0xF4, CHR 0xF5, CHR 0xF6,
      CHR 0xF8, CHR 0xF9, CHR 0xFA, CHR 0xFB, CHR 0xFC, CHR 0xFD, CHR 0xFE]"

definition toLowerChar :: "char \<Rightarrow> char" where
  "toLowerChar c = (case map_of (zip upperCase lowerCase) c of None \<Rightarrow> c | Some l \<Rightarrow> l)"

text \<open>\<open>String.prototype.toLowerCase\<close> on the code units of the model.\<close>

definition toLowerCase :: "string \<Rightarrow> string" where
  "toLowerCase s = map toLowerChar s"

section \<open>JSON values\<close>

text \<open>
  What \<open>JSON.parse\<close> returns. An object is the list of its own properties in the order
  in which it lists them. Numbers are the integers; \<open>-0\<close> is \<open>0\<close>.
\<close>

datatype json =
    JNull
  | JBool bool
  | JNum int
  | JStr string
  | JArr "json list"
  | JObj "(string \<times> json) list"

text \<open>The truth value of a JSON value in a condition (\<open>ToBoolean\<close>).\<close>

fun truthy :: "json \<Rightarrow> bool" where
  "truthy JNull = False"
| "truthy (JBool b) = b"
| "truthy (JNum n) = (n \<noteq> 0)"
| "truthy (JStr s) = (s \<noteq> [])"
| "truthy (JArr xs) = True"
| "truthy (JObj kvs) = True"

section \<open>JSON.stringify\<close>

definition decimalDigits :: "char list" where
  "decimalDigits = ''0123456789''"

definition hexDigits :: "char list" where
  "hexDigits = ''0123456789abcdef''"

text \<open>The decimal numeral of a natural number, without leading zeros.\<close>

fun digits :: "nat \<Rightarrow> string" where
  "digits n =
     (if n < 10 then [decimalDigits ! n]
      else digits (n div 10) @ [decimalDigits ! (n mod 10)])"

declare digits.simps [simp del]

definition show_int :: "int \<Rightarrow> string" where
  "show_int n = (if n < 0 then CHR ''-'' # digits (nat (- n)) else digits (nat n))"

text \<open>
  \<open>QuoteJSONString\<close>: the quotation mark, the reverse solidus and the control characters
  are escaped, everything else is copied.
\<close>

definition escape_char :: "char \<Rightarrow> string" where
  "escape_char c =
     (if c = CHR 0x22 then [CHR 0x5C, CHR 0x22]
      else if c = CHR 0x5C then [CHR 0x5C, CHR 0x5C]
      else if c = CHR 0x08 then [CHR 0x5C, CHR ''b'']
      else if c = CHR 0x09 then [CHR 0x5C, CHR ''t'']
      else if c = CHR 0x0A then [CHR 0x5C, CHR ''n'']
      else if c = CHR 0x0C then [CHR 0x5C, CHR ''f'']
      else if c = CHR 0x0D then [CHR 0x5C, CHR ''r'']
      else if (of_char c :: nat) < 32 then
        [CHR 0x5C, CHR ''u'', CHR ''0'', CHR ''0'',
         hexDigits ! (of_char c div 16), hexDigits ! (of_char c mod 16)]
      else [c])"

definition quote :: "string \<Rightarrow> string" where
  "quote s = CHR 0x22 # concat (map escape_char s) @ [CHR 0x22]"

fun commas :: "string list \<Rightarrow> string" where
  "commas [] = []"
| "commas [x] = x"
| "commas (x # y # ys) = x @ CHR '','' # commas (y # ys)"

text \<open>\<open>JSON.stringify(value)\<close> with no indentation: no white space is written.\<close>

primrec JSON_stringify :: "json \<Rightarrow> string" where
  "JSON_stringify JNull = ''null''"
| "JSON_stringify (JBool b) = (if b then ''true'' else ''false'')"
| "JSON_stringify (JNum n) = show_int n"
| "JSON_stringify (JStr s) = quote s"
| "JSON_stringify (JArr xs) = CHR ''['' # commas (map JSON_stringify xs) @ '']''"
| "JSON_stringify (JObj kvs) =
     CHR ''{'' # commas (map (\<lambda>(k, v). quote k @ CHR '':'' # v)
                          (map (map_prod id JSON_stringify) kvs)) @ ''}''"

section \<open>JSON.parse\<close>

text \<open>
  The grammar of ECMA-404 on the code units of the model. A reader gives what it read
  and the text left, or finds the text malformed. Two kinds of text that \<open>JSON.parse\<close>
  accepts have no value in the model: a number with a fraction, an exponent or a
  magnitude above \<open>Number.MAX_SAFE_INTEGER\<close> (its value is a rounded double), and an
  escape \<open>\uXXXX\<close> above U+00FF. A reader that meets one answers \<open>Unsupported\<close>, and
  the model says nothing about such a text.
\<close>

datatype 'a reading = Read 'a string | Malformed | Unsupported

definition isJsonSpace :: "char \<Rightarrow> bool" where
  "isJsonSpace c = (c = CHR 0x20 \<or> c = CHR 0x09 \<or> c = CHR 0x0A \<or> c = CHR 0x0D)"

definition skip_ws :: "string \<Rightarrow> string" where
  "skip_ws s = dropWhile isJsonSpace s"

definition hex_value :: "char \<Rightarrow> nat option" where
  "hex_value c =
     map_of (zip (hexDigits @ ''ABCDEF'')
                 [0, 1, 2, 3, 4, 5, 6, 7, 8, 9, 10, 11, 12, 13, 14, 15, 10, 11, 12, 13, 14, 15]) c"

definition unescape :: "char \<Rightarrow> char option" where
  "unescape e =
     (if e = CHR 0x22 then Some (CHR 0x22)
      else if e = CHR 0x5C then Some (CHR 0x5C)
      else if e = CHR ''/'' then Some (CHR ''/'')
      else if e = CHR ''b'' then Some (CHR 0x08)
      else if e = CHR ''f'' then Some (CHR 0x0C)
      else if e = CHR ''n'' then Some (CHR 0x0A)
      else if e = CHR ''r'' then Some (CHR 0x0D)
      else if e = CHR ''t'' then Some (CHR 0x09)
      else None)"

text \<open>
  The characters of a string after its opening quotation mark, up to the closing one.
\<close>

fun parse_chars :: "string \<Rightarrow> string reading" where
  "parse_chars [] = Malformed"
| "parse_chars (c # cs) =
     (if c = CHR 0x22 then Read [] cs
      else if c = CHR 0x5C then
        (case cs of
           [] \<Rightarrow> Malformed
         | e # es \<Rightarrow>
             if e = CHR ''u'' then
               (case es of
                  h1 # h2 # h3 # h4 # r \<Rightarrow>
                    (case (hex_value h1, hex_value h2, hex_value h3, hex_value h4) of
                       (Some a, Some b, Some h, Some l) \<Rightarrow>
                         if a = 0 \<and> b = 0
                         then map_reading ((#) (char_of (16 * h + l))) (parse_chars r)
                         else Unsupported
                     | _ \<Rightarrow> Malformed)
                | _ \<Rightarrow> Malformed)
             else
               (case unescape e of
                  None \<Rightarrow> Malformed
                | Some u \<Rightarrow> map_reading ((#) u) (parse_chars es)))
      else if (of_char c :: nat) < 32 then Malformed
      else map_reading ((#) c) (parse_chars cs))"

definition isDigit :: "char \<Rightarrow> bool" where
  "isDigit c = (c \<in> set decimalDigits)"

definition digit_value :: "char \<Rightarrow> int" where
  "digit_value c =
     (case map_of (zip decimalDigits [0, 1, 2, 3, 4, 5, 6, 7, 8, 9]) c of
        Some n \<Rightarrow> n
      | None \<Rightarrow> 0)"

definition read_digits :: "string \<Rightarrow> int" where
  "read_digits ds = foldl (\<lambda>a d. 10 * a + digit_value d) 0 ds"

definition maxSafeInteger :: int where
  "maxSafeInteger = 9007199254740991"

text \<open>The digits of a number: no leading zero before another digit.\<close>

definition parse_natural :: "string \<Rightarrow> int reading" where
  "parse_natural s =
     (let ds = takeWhile isDigit s; r = dropWhile isDigit s in
      if ds = [] then Malformed
      else if hd ds = CHR ''0'' \<and> tl ds \<noteq> [] then Malformed
      else if r \<noteq> [] \<and> hd r \<in> set ''.eE'' then Unsupported
      else if read_digits ds > maxSafeInteger then Unsupported
      else Read (read_digits ds) r)"

definition parse_number :: "string \<Rightarrow> int reading" where
  "parse_number s =
     (case s of
        [] \<Rightarrow> Malformed
      | c # cs \<Rightarrow>
          if c = CHR ''-'' then map_reading uminus (parse_natural cs)
          else parse_natural s)"

definition parse_literal :: "string \<Rightarrow> json reading" where
  "parse_literal s =
     (if take 4 s = ''true'' then Read (JBool True) (drop 4 s)
      else if take 5 s = ''false'' then Read (JBool False) (drop 5 s)
      else if take 4 s = ''null'' then Read JNull (drop 4 s)
      else map_reading JNum (parse_number s))"

text \<open>
  The names that are array indices: the canonical decimal numerals of the integers from
  0 to 4294967294.
\<close>

definition maxArrayIndex :: int where
  "maxArrayIndex = 4294967294"

definition isArrayIndex :: "string \<Rightarrow> bool" where
  "isArrayIndex k =
     (k \<noteq> [] \<and> list_all isDigit k \<and> (hd k \<noteq> CHR ''0'' \<or> tl k = [])
      \<and> read_digits k \<le> maxArrayIndex)"

text \<open>
  The order in which an object lists its own properties: the array indices in
  ascending numeric order, then the other names in the order of their creation.
\<close>

definition ownPropertyOrder :: "(string \<times> 'a) list \<Rightarrow> (string \<times> 'a) list" where
  "ownPropertyOrder kvs =
     sort_key (\<lambda>kv. read_digits (fst kv)) (filter (\<lambda>kv. isArrayIndex (fst kv)) kvs)
     @ filter (\<lambda>kv. \<not> isArrayIndex (fst kv)) kvs"

text \<open>
  The object made from the members read: each member defines a property, in the order
  of the text, so that a name that comes again replaces the value and keeps the place
  of the first; the properties are then listed in the order of an object.
\<close>

definition js_object :: "(string \<times> json) list \<Rightarrow> (string \<times> json) list" where
  "js_object ms = ownPropertyOrder (fold (\<lambda>(k, v). AList.update k v) ms [])"

text \<open>
  A value, the elements of an array after its first bracket, the members of an object
  after its first brace. The comparisons of lengths are there for the termination
  proof; \<open>reads_shorter\<close> below shows that they hold whenever they are reached.
\<close>

function parse_value :: "string \<Rightarrow> json reading"
  and parse_elements :: "string \<Rightarrow> json list reading"
  and parse_members :: "string \<Rightarrow> (string \<times> json) list reading"
where
  "parse_value s =
     (case skip_ws s of
        [] \<Rightarrow> Malformed
      | c # r \<Rightarrow>
          if c = CHR 0x22 then map_reading JStr (parse_chars r)
          else if c = CHR ''['' then
            (case skip_ws r of
               [] \<Rightarrow> Malformed
             | c' # r' \<Rightarrow>
                 if c' = CHR '']'' then Read (JArr []) r'
                 else map_reading JArr (parse_elements r))
          else if c = CHR ''{'' then
            (case skip_ws r of
               [] \<Rightarrow> Malformed
             | c' # r' \<Rightarrow>
                 if c' = CHR ''}'' then Read (JObj []) r'
                 else map_reading (\<lambda>ms. JObj (js_object ms)) (parse_members r))
          else parse_literal (c # r))"
| "parse_elements s =
     (case parse_value s of
        Malformed \<Rightarrow> Malformed
      | Unsupported \<Rightarrow> Unsupported
      | Read v r \<Rightarrow>
          (case skip_ws r of
             [] \<Rightarrow> Malformed
           | c # r' \<Rightarrow>
               if c = CHR '']'' then Read [v] r'
               else if c = CHR '','' \<and> length r' < length s
                 then map_reading ((#) v) (parse_elements r')
               else Malformed))"
| "parse_members s =
     (case skip_ws s of
        [] \<Rightarrow> Malformed
      | q # ks \<Rightarrow>
          if q \<noteq> CHR 0x22 then Malformed
          else
            (case parse_chars ks of
               Malformed \<Rightarrow> Malformed
             | Unsupported \<Rightarrow> Unsupported
             | Read k r0 \<Rightarrow>
                 (case skip_ws r0 of
                    [] \<Rightarrow> Malformed
                  | colon # r1 \<Rightarrow>
                      if colon \<noteq> CHR '':'' \<or> \<not> length r1 < length s then Malformed
                      else
                        (case parse_value r1 of
                           Malformed \<Rightarrow> Malformed
                         | Unsupported \<Rightarrow> Unsupported
                         | Read v r \<Rightarrow>
                             (case skip_ws r of
                                [] \<Rightarrow> Malformed
                              | c # r' \<Rightarrow>
                                  if c = CHR ''}'' then Read [(k, v)] r'
                                  else if c = CHR '','' \<and> length r' < length s
                                    then map_reading ((#) (k, v)) (parse_members r')
                                  else Malformed)))))"
  by pat_completeness auto
termination
proof (relation "measure (\<lambda>x. case x of Inl s \<Rightarrow> 2 * length s
                                      | Inr (Inl s) \<Rightarrow> 2 * length s + 1
                                      | Inr (Inr s) \<Rightarrow> 2 * length s + 1)", goal_cases)
  case (2 s c r c' r')
  then show ?case
    using length_dropWhile_le [of isJsonSpace s] by (simp add: skip_ws_def)
next
  case (3 s c r c' r')
  then show ?case
    using length_dropWhile_le [of isJsonSpace s] by (simp add: skip_ws_def)
qed auto

declare parse_value.simps [simp del] parse_elements.simps [simp del] parse_members.simps [simp del]

text \<open>
  \<open>JSON.parse(text)\<close>: one value, with nothing but white space after it. It returns
  the value or throws a \<open>SyntaxError\<close>.
\<close>

datatype parsed = Parsed json | SyntaxError | OutsideModel

definition JSON_parse :: "string \<Rightarrow> parsed" where
  "JSON_parse text =
     (case parse_value text of
        Read v r \<Rightarrow> if skip_ws r = [] then Parsed v else SyntaxError
      | Malformed \<Rightarrow> SyntaxError
      | Unsupported \<Rightarrow> OutsideModel)"

text \<open>
  The values that \<open>JSON.parse\<close> can return: the numbers are safe integers, no object
  has a property twice and every object lists its properties in the order of an object.
\<close>

fun parsed_value :: "json \<Rightarrow> bool" where
  "parsed_value (JNum n) = (\<bar>n\<bar> \<le> maxSafeInteger)"
| "parsed_value (JArr xs) = list_all parsed_value xs"
| "parsed_value (JObj kvs) =
     (distinct (map fst kvs) \<and> ownPropertyOrder kvs = kvs
      \<and> list_all (\<lambda>kv. parsed_value (snd kv)) kvs)"
| "parsed_value v = True"

section \<open>types.ts (at the end of src/App.tsx)\<close>

text \<open>
  \<open>WordDetails\<close> and the interfaces below it are erased at run time: the value held is the
  one that \<open>JSON.parse\<close> returned, cast by \<open>data as WordDetails\<close>.
\<close>

type_synonym WordDetails = json

text \<open>
  \<open>interface SavedWord { word: string; details: WordDetails; similarWords: string[] }\<close>.
  The third field is \<open>similarWordsOf\<close> here, the name \<open>similarWords\<close> being the
  state variable of the component.
\<close>

record SavedWord =
  word :: string
  details :: WordDetails
  similarWordsOf :: "string list"

section \<open>The host: exceptions, conversions, property reads\<close>

text \<open>
  What a \<open>catch\<close> clause can receive: an instance of \<open>Error\<close> with its message
  (\<open>SyntaxError\<close> and \<open>TypeError\<close> are such instances), or any other value.
\<close>

datatype thrown = Thrown_Error string | Thrown_other

text \<open>The texts of the messages that the engine chooses.\<close>

record host =
  syntaxErrorMessage :: "string \<Rightarrow> string"
  nullReadMessage :: "string \<Rightarrow> string"
  toPrimitiveMessage :: string

text \<open>
  \<open>ToString\<close> of a JSON value, as \<open>new Error(value)\<close> applies it. An array joins its
  elements with commas, \<open>null\<close> elements being empty; a plain object gives
  \<open>[object Object]\<close>, and one with an own property \<open>toString\<close> (never callable in a
  JSON value) has no primitive value: \<open>None\<close> is that \<open>TypeError\<close>.
\<close>

fun toString :: "json \<Rightarrow> string option" where
  "toString JNull = Some ''null''"
| "toString (JBool b) = Some (if b then ''true'' else ''false'')"
| "toString (JNum n) = Some (show_int n)"
| "toString (JStr s) = Some s"
| "toString (JArr xs) =
     map_option commas (those (map (\<lambda>x. if x = JNull then Some [] else toString x) xs))"
| "toString (JObj kvs) =
     (if ''toString'' \<in> fst ` set kvs then None else Some ''[object Object]'')"

text \<open>
  \<open>data.name\<close> for a value that \<open>JSON.parse\<close> returned, read for the names
  \<open>error\<close>, \<open>syllabification\<close>, \<open>etymology\<close>, \<open>synonyms\<close> and \<open>forms\<close>,
  which no prototype defines: reading from \<open>null\<close> throws, an object gives its own
  property or \<open>undefined\<close>, every other value gives \<open>undefined\<close>.
\<close>

datatype property = ReadOfNull | Undefined | Value json

fun getProperty :: "json \<Rightarrow> string \<Rightarrow> property" where
  "getProperty JNull name = ReadOfNull"
| "getProperty (JObj kvs) name = (case map_of kvs name of None \<Rightarrow> Undefined | Some v \<Rightarrow> Value v)"
| "getProperty v name = Undefined"

fun isTruthy :: "property \<Rightarrow> bool" where
  "isTruthy (Value v) = truthy v"
| "isTruthy p = False"

section \<open>services/geminiService.ts (src/unnamed/part_000)\<close>

text \<open>
  A run of the program is followed as far as the model can tell: \<open>Unmodelled\<close> is a
  run that meets a JSON text without a value in the model, or stores a value that the
  typed state cannot hold.
\<close>

datatype 'a run = Outcome 'a | Unmodelled

text \<open>
  How \<open>ai.models.generateContent\<close> settles: it resolves with a response whose \<open>text\<close>
  is a string or \<open>undefined\<close>, or it rejects. The prompt and the schema sent are
  functions of the word alone, so the service is a function of the word.
\<close>

datatype completion = Resolved "string option" | Rejected thrown

definition incompleteData :: string where
  "incompleteData = ''Received incomplete data from the API.''"

text \<open>The second condition (lines 131 to 136): the four fields must be truthy.\<close>

definition requireFields :: "json \<Rightarrow> thrown + WordDetails" where
  "requireFields data =
     (if \<not> isTruthy (getProperty data ''syllabification'')
         \<or> \<not> isTruthy (getProperty data ''etymology'')
         \<or> \<not> isTruthy (getProperty data ''synonyms'')
         \<or> \<not> isTruthy (getProperty data ''forms'')
      then Inl (Thrown_Error incompleteData)
      else Inr data)"

text \<open>
  The message of \<open>new Error(data.error)\<close>, or of the \<open>TypeError\<close> thrown while the
  message is converted.
\<close>

definition thrownMessage :: "host \<Rightarrow> json \<Rightarrow> string" where
  "thrownMessage h e = (case toString e of None \<Rightarrow> toPrimitiveMessage h | Some message \<Rightarrow> message)"

text \<open>
  Lines 127 to 136, on the value parsed: \<open>if (data.error) throw new Error(data.error)\<close>,
  then the second condition, then \<open>return data as WordDetails\<close>.
\<close>

definition validate :: "host \<Rightarrow> json \<Rightarrow> thrown + WordDetails" where
  "validate h data =
     (case getProperty data ''error'' of
        ReadOfNull \<Rightarrow> Inl (Thrown_Error (nullReadMessage h ''error''))
      | Undefined \<Rightarrow> requireFields data
      | Value e \<Rightarrow>
          if truthy e then Inl (Thrown_Error (thrownMessage h e))
          else requireFields data)"

text \<open>
  The \<open>try\<close> block of \<open>fetchWordDetails\<close> (lines 115 to 136). \<open>JSON.parse(undefined)\<close>
  parses the text \<open>undefined\<close>.
\<close>

definition tryBlock :: "host \<Rightarrow> completion \<Rightarrow> (thrown + WordDetails) run" where
  "tryBlock h response =
     (case response of
        Rejected t \<Rightarrow> Outcome (Inl t)
      | Resolved responseText \<Rightarrow>
          (let text = (case responseText of None \<Rightarrow> ''undefined'' | Some t \<Rightarrow> t) in
           case JSON_parse text of
             SyntaxError \<Rightarrow> Outcome (Inl (Thrown_Error (syntaxErrorMessage h text)))
           | OutsideModel \<Rightarrow> Unmodelled
           | Parsed data \<Rightarrow> Outcome (validate h data)))"

text \<open>The start of the message that the \<open>catch\<close> clause builds (line 140).\<close>

definition failurePrefix :: "string \<Rightarrow> string" where
  "failurePrefix w = ''Failed to fetch details for '' @ [CHR 0x22] @ w @ [CHR 0x22] @ '': ''"

text \<open>\<open>fetchWordDetails\<close> (lines 111 to 144): the \<open>catch\<close> clause wraps what was thrown.\<close>

definition fetchWordDetails ::
  "host \<Rightarrow> (string \<Rightarrow> completion) \<Rightarrow> string \<Rightarrow> (thrown + WordDetails) run" where
  "fetchWordDetails h generateContent w =
     (case tryBlock h (generateContent w) of
        Unmodelled \<Rightarrow> Unmodelled
      | Outcome (Inr data) \<Rightarrow> Outcome (Inr data)
      | Outcome (Inl (Thrown_Error message)) \<Rightarrow>
          Outcome (Inl (Thrown_Error (failurePrefix w @ message)))
      | Outcome (Inl Thrown_other) \<Rightarrow>
          Outcome (Inl (Thrown_Error
            (''An unknown error occurred while fetching details for ''
               @ [CHR 0x22] @ w @ [CHR 0x22] @ ''.''))))"

section \<open>localStorage\<close>

text \<open>
  The storage area of the origin: its items, the room it has, and whether the page may
  use it at all. \<open>getItem\<close> and \<open>setItem\<close> throw when it may not; \<open>setItem\<close> throws
  when the new value does not fit.
\<close>

datatype dom_exception = SecurityError | QuotaExceededError

record storage =
  items :: "(string \<times> string) list"
  quota :: nat
  accessible :: bool

definition usage :: "(string \<times> string) list \<Rightarrow> nat" where
  "usage kvs = sum_list (map (\<lambda>kv. length (fst kv) + length (snd kv)) kvs)"

definition getItem :: "storage \<Rightarrow> string \<Rightarrow> dom_exception + string option" where
  "getItem ls key = (if accessible ls then Inr (map_of (items ls) key) else Inl SecurityError)"

definition setItem :: "storage \<Rightarrow> string \<Rightarrow> string \<Rightarrow> dom_exception + storage" where
  "setItem ls key v =
     (if \<not> accessible ls then Inl SecurityError
      else if usage (AList.update key v (items ls)) > quota ls then Inl QuotaExceededError
      else Inr (ls\<lparr>items := AList.update key v (items ls)\<rparr>))"

section \<open>App.tsx: the state of the component\<close>

record app_state =
  wordToSearch :: string
  currentWord :: "string option"
  wordDetails :: "WordDetails option"
  similarWords :: "string list"
  newSimilarWord :: string
  isLoading :: bool
  error :: "string option"
  savedWords :: "SavedWord list"
  isSidebarOpen :: bool

text \<open>The initial values given to \<open>useState\<close>; \<open>null\<close> is \<open>None\<close>.\<close>

definition initial_state :: app_state where
  "initial_state =
     \<lparr>wordToSearch = [], currentWord = None, wordDetails = None, similarWords = [],
      newSimilarWord = [], isLoading = False, error = None, savedWords = [],
      isSidebarOpen = False\<rparr>"

definition LOCAL_STORAGE_KEY :: string where
  "LOCAL_STORAGE_KEY = ''vocabulary-quadrant-saved-words''"

section \<open>App.tsx: the two effects on localStorage\<close>

text \<open>What \<open>JSON.stringify(savedWords)\<close> serializes.\<close>

definition jsonSavedWord :: "SavedWord \<Rightarrow> json" where
  "jsonSavedWord sw =
     JObj [(''word'', JStr (word sw)), (''details'', details sw),
           (''similarWords'', JArr (map JStr (similarWordsOf sw)))]"

definition jsonSavedWords :: "SavedWord list \<Rightarrow> json" where
  "jsonSavedWords sws = JArr (map jsonSavedWord sws)"

text \<open>
  \<open>setSavedWords(JSON.parse(saved))\<close> stores the value parsed without a check. The
  state of the model holds it when it is an array of objects with the three properties
  of \<open>SavedWord\<close> in the order in which this program writes them.
\<close>

fun asString :: "json \<Rightarrow> string option" where
  "asString (JStr s) = Some s"
| "asString v = None"

definition asSavedWord :: "json \<Rightarrow> SavedWord option" where
  "asSavedWord v =
     (case v of
        JObj [(k1, JStr w), (k2, d), (k3, JArr ss)] \<Rightarrow>
          if k1 = ''word'' \<and> k2 = ''details'' \<and> k3 = ''similarWords''
          then map_option (\<lambda>xs. \<lparr>word = w, details = d, similarWordsOf = xs\<rparr>)
                 (those (map asString ss))
          else None
      | _ \<Rightarrow> None)"

definition asSavedWords :: "json \<Rightarrow> SavedWord list option" where
  "asSavedWords v = (case v of JArr xs \<Rightarrow> those (map asSavedWord xs) | _ \<Rightarrow> None)"

text \<open>
  The first effect (lines 68 to 77), run once at startup: the state after it and what
  \<open>console.error\<close> printed.
\<close>

definition loadFailed :: string where
  "loadFailed = ''Failed to load saved words from localStorage''"

definition saveFailed :: string where
  "saveFailed = ''Failed to save words to localStorage''"

definition loadEffect :: "storage \<Rightarrow> app_state \<Rightarrow> (app_state \<times> string list) run" where
  "loadEffect ls st =
     (case getItem ls LOCAL_STORAGE_KEY of
        Inl e \<Rightarrow> Outcome (st, [loadFailed])
      | Inr None \<Rightarrow> Outcome (st, [])
      | Inr (Some saved) \<Rightarrow>
          if saved = [] then Outcome (st, [])
          else
            (case JSON_parse saved of
               SyntaxError \<Rightarrow> Outcome (st, [loadFailed])
             | OutsideModel \<Rightarrow> Unmodelled
             | Parsed v \<Rightarrow>
                 (case asSavedWords v of
                    Some sws \<Rightarrow> Outcome (st\<lparr>savedWords := sws\<rparr>, [])
                  | None \<Rightarrow> Unmodelled)))"

text \<open>
  The second effect (lines 79 to 85), run after every change of \<open>savedWords\<close>: the
  storage after it and what \<open>console.error\<close> printed.
\<close>

definition saveEffect :: "storage \<Rightarrow> app_state \<Rightarrow> storage \<times> string list" where
  "saveEffect ls st =
     (case setItem ls LOCAL_STORAGE_KEY (JSON_stringify (jsonSavedWords (savedWords st))) of
        Inl e \<Rightarrow> (ls, [saveFailed])
      | Inr ls' \<Rightarrow> (ls', []))"

section \<open>App.tsx: the handlers\<close>

text \<open>
  \<open>executeSearch\<close> (lines 87 to 108), from the call to the moment the request has
  settled, no other handler running in between: the state, and the words for which a
  request was sent.
\<close>

definition executeSearch ::
  "host \<Rightarrow> (string \<Rightarrow> completion) \<Rightarrow> string \<Rightarrow> app_state \<Rightarrow> (app_state \<times> string list) run" where
  "executeSearch h generateContent wordToQuery st =
     (if trim wordToQuery = [] then Outcome (st, [])
      else
        (let lowercasedWord = toLowerCase (trim wordToQuery);
             pending = st\<lparr>isLoading := True, error := None, wordDetails := None,
                          currentWord := Some lowercasedWord, similarWords := []\<rparr>
         in case fetchWordDetails h generateContent lowercasedWord of
              Unmodelled \<Rightarrow> Unmodelled
            | Outcome (Inr details') \<Rightarrow>
                Outcome (pending\<lparr>wordDetails := Some details', isLoading := False\<rparr>,
                         [lowercasedWord])
            | Outcome (Inl (Thrown_Error message)) \<Rightarrow>
                Outcome (pending\<lparr>error := Some message, currentWord := None, isLoading := False\<rparr>,
                         [lowercasedWord])
            | Outcome (Inl Thrown_other) \<Rightarrow>
                Outcome (pending\<lparr>error := Some ''An unknown error occurred.'', currentWord := None,
                                  isLoading := False\<rparr>,
                         [lowercasedWord])))"

text \<open>\<open>handleFormSubmit\<close> and \<open>handleDoubleClickWord\<close> (lines 110 to 118).\<close>

definition handleFormSubmit ::
  "host \<Rightarrow> (string \<Rightarrow> completion) \<Rightarrow> app_state \<Rightarrow> (app_state \<times> string list) run" where
  "handleFormSubmit h generateContent st = executeSearch h generateContent (wordToSearch st) st"

definition handleDoubleClickWord ::
  "host \<Rightarrow> (string \<Rightarrow> completion) \<Rightarrow> string \<Rightarrow> app_state \<Rightarrow> (app_state \<times> string list) run" where
  "handleDoubleClickWord h generateContent w st =
     executeSearch h generateContent w (st\<lparr>wordToSearch := w\<rparr>)"

text \<open>\<open>handleAddSimilarWord\<close> (lines 120 to 126).\<close>

definition handleAddSimilarWord :: "app_state \<Rightarrow> app_state" where
  "handleAddSimilarWord st =
     (if trim (newSimilarWord st) \<noteq> []
         \<and> trim (newSimilarWord st) \<notin> set (similarWords st)
      then st\<lparr>similarWords := similarWords st @ [trim (newSimilarWord st)],
              newSimilarWord := []\<rparr>
      else st)"

text \<open>
  \<open>handleSaveWord\<close> (lines 128 to 137). In the condition \<open>currentWord\<close> fails when it is
  \<open>null\<close> or empty, \<open>wordDetails\<close> when it is \<open>null\<close> or falsy.
\<close>

definition handleSaveWord :: "app_state \<Rightarrow> app_state" where
  "handleSaveWord st =
     (case (currentWord st, wordDetails st) of
        (Some cw, Some wd) \<Rightarrow>
          if cw \<noteq> [] \<and> truthy wd \<and> \<not> list_ex (\<lambda>sw. word sw = cw) (savedWords st)
          then
            (let newSavedWord = \<lparr>word = cw, details = wd, similarWordsOf = similarWords st\<rparr>
             in st\<lparr>savedWords := newSavedWord # savedWords st\<rparr>)
          else st
      | _ \<Rightarrow> st)"

text \<open>\<open>handleSelectSavedWord\<close> (lines 139 to 148).\<close>

definition handleSelectSavedWord :: "SavedWord \<Rightarrow> app_state \<Rightarrow> app_state" where
  "handleSelectSavedWord savedWord st =
     st\<lparr>currentWord := Some (word savedWord), wordDetails := Some (details savedWord),
        similarWords := similarWordsOf savedWord, wordToSearch := word savedWord,
        isSidebarOpen := False, error := None, isLoading := False\<rparr>"

text \<open>\<open>handleDeleteWord\<close> (lines 150 to 152).\<close>

definition handleDeleteWord :: "string \<Rightarrow> app_state \<Rightarrow> app_state" where
  "handleDeleteWord wordToDelete st =
     st\<lparr>savedWords := filter (\<lambda>sw. word sw \<noteq> wordToDelete) (savedWords st)\<rparr>"

section \<open>Notions used in the statements and proofs\<close>

text \<open>Typing into the annotation field (line 349), and a sequence of typed and submitted annotations.\<close>

definition typeSimilarWord :: "string \<Rightarrow> app_state \<Rightarrow> app_state" where
  "typeSimilarWord s st = st\<lparr>newSimilarWord := s\<rparr>"

definition addSimilarWords :: "string list \<Rightarrow> app_state \<Rightarrow> app_state" where
  "addSimilarWords submitted st =
     fold (\<lambda>s st'. handleAddSimilarWord (typeSimilarWord s st')) submitted st"

text \<open>No two entries of a collection have the same word.\<close>

definition uniqueByWord :: "SavedWord list \<Rightarrow> bool" where
  "uniqueByWord sws = distinct (map word sws)"

text \<open>
  The details held by the state are values that \<open>JSON.parse\<close> can return.
\<close>

definition validState :: "app_state \<Rightarrow> bool" where
  "validState st \<longleftrightarrow>
     (\<forall>d. wordDetails st = Some d \<longrightarrow> parsed_value d)
     \<and> (\<forall>sw \<in> set (savedWords st). parsed_value (details sw))"

text \<open>The fields that the second condition of \<open>fetchWordDetails\<close> reads.\<close>

definition requiredFields :: "string list" where
  "requiredFields = [''syllabification'', ''etymology'', ''synonyms'', ''forms'']"

text \<open>The text after a serialized value starts a new token, or there is none.\<close>

definition delimited :: "string \<Rightarrow> bool" where
  "delimited rest = (rest = [] \<or> hd rest \<in> set '',]}'')"

text \<open>The characters that a serialized value can start with.\<close>

definition opener :: "char \<Rightarrow> bool" where
  "opener c = (c \<in> set ''ntf-0123456789[{'' \<or> c = CHR 0x22)"

definition member_text :: "string \<times> json \<Rightarrow> string" where
  "member_text kv = quote (fst kv) @ CHR '':'' # JSON_stringify (snd kv)"

section \<open>Runs of the program\<close>

text \<open>
  What happens to a page and to the storage area of its origin: the user types, submits
  a search or double-clicks a word (the service settles the request with the completion
  given), types and submits an annotation, saves the displayed word, clicks on an entry
  of the sidebar or on its delete button (lines 40 and 43 pass the entry and its word),
  opens and closes the sidebar; the second effect runs; the page is opened again, which
  starts from the initial state and runs the first effect; the browser changes the room
  of the storage area or the access to it, or the user clears it.
\<close>

datatype event =
    TypeSearch string
  | SubmitSearch completion
  | DoubleClick string completion
  | TypeSimilar string
  | AddSimilar
  | SaveWord
  | SelectSaved nat
  | DeleteSaved nat
  | OpenSidebar
  | CloseSidebar
  | SaveEffect
  | Reload
  | SetQuota nat
  | SetAccessible bool
  | ClearStorage

definition withStorage ::
  "storage \<Rightarrow> (app_state \<times> string list) run \<Rightarrow> (storage \<times> app_state) run" where
  "withStorage ls r = (case r of Unmodelled \<Rightarrow> Unmodelled | Outcome (st, printed) \<Rightarrow> Outcome (ls, st))"

fun step :: "host \<Rightarrow> event \<Rightarrow> storage \<times> app_state \<Rightarrow> (storage \<times> app_state) run" where
  "step h (TypeSearch s) (ls, st) = Outcome (ls, st\<lparr>wordToSearch := s\<rparr>)"
| "step h (SubmitSearch answer) (ls, st) = withStorage ls (handleFormSubmit h (\<lambda>w. answer) st)"
| "step h (DoubleClick w answer) (ls, st) =
     withStorage ls (handleDoubleClickWord h (\<lambda>w. answer) w st)"
| "step h (TypeSimilar s) (ls, st) = Outcome (ls, typeSimilarWord s st)"
| "step h AddSimilar (ls, st) = Outcome (ls, handleAddSimilarWord st)"
| "step h SaveWord (ls, st) = Outcome (ls, handleSaveWord st)"
| "step h (SelectSaved i) (ls, st) =
     Outcome (ls, if i < length (savedWords st) then handleSelectSavedWord (savedWords st ! i) st
                  else st)"
| "step h (DeleteSaved i) (ls, st) =
     Outcome (ls, if i < length (savedWords st) then handleDeleteWord (word (savedWords st ! i)) st
                  else st)"
| "step h OpenSidebar (ls, st) = Outcome (ls, st\<lparr>isSidebarOpen := True\<rparr>)"
| "step h CloseSidebar (ls, st) = Outcome (ls, st\<lparr>isSidebarOpen := False\<rparr>)"
| "step h SaveEffect (ls, st) = Outcome (fst (saveEffect ls st), st)"
| "step h Reload (ls, st) = withStorage ls (loadEffect ls initial_state)"
| "step h (SetQuota q) (ls, st) = Outcome (ls\<lparr>quota := q\<rparr>, st)"
| "step h (SetAccessible a) (ls, st) = Outcome (ls\<lparr>accessible := a\<rparr>, st)"
| "step h ClearStorage (ls, st) = Outcome (ls\<lparr>items := []\<rparr>, st)"

fun run_events ::
  "host \<Rightarrow> event list \<Rightarrow> storage \<times> app_state \<Rightarrow> (storage \<times> app_state) run" where
  "run_events h [] page = Outcome page"
| "run_events h (e # es) page =
     (case step h e page of Unmodelled \<Rightarrow> Unmodelled | Outcome page' \<Rightarrow> run_events h es page')"

text \<open>
  What the storage area holds under the key of the program is absent, or the text that
  the second effect writes for a valid collection unique by word.
\<close>

definition storedUnique :: "storage \<Rightarrow> bool" where
  "storedUnique ls \<longleftrightarrow>
     (\<forall>saved. map_of (items ls) LOCAL_STORAGE_KEY = Some saved \<longrightarrow>
        (\<exists>sws. saved = JSON_stringify (jsonSavedWords sws) \<and> uniqueByWord sws
               \<and> (\<forall>sw \<in> set sws. parsed_value (details sw))))"

text \<open>What every page of a run satisfies.\<close>

definition pageInvariant :: "storage \<times> app_state \<Rightarrow> bool" where
  "pageInvariant page \<longleftrightarrow>
     storedUnique (fst page) \<and> validState (snd page) \<and> uniqueByWord (savedWords (snd page))"

section \<open>Concrete inputs\<close>

definition entry :: "string \<Rightarrow> SavedWord" where
  "entry w = \<lparr>word = w, details = JObj [], similarWordsOf = []\<rparr>"

definition shelf :: app_state where
  "shelf = initial_state\<lparr>savedWords := [entry ''a'', entry ''b'', entry ''c''],
             currentWord := Some ''d'', wordDetails := Some (JObj []), similarWords := [''x''],
             newSimilarWord := '' y ''\<rparr>"

definition engine :: host where
  "engine = \<lparr>syntaxErrorMessage = (\<lambda>text. ''Unexpected token''),
             nullReadMessage = (\<lambda>name. ''Cannot read properties of null''),
             toPrimitiveMessage = ''Cannot convert object to primitive value''\<rparr>"

text \<open>A service that answers every request with the same text.\<close>

definition answering :: "string \<Rightarrow> string \<Rightarrow> completion" where
  "answering text w = Resolved (Some text)"

definition storeHolding :: "string \<Rightarrow> storage" where
  "storeHolding text = \<lparr>items = [(LOCAL_STORAGE_KEY, text)], quota = 5000000, accessible = True\<rparr>"

definition emptyStore :: storage where
  "emptyStore = \<lparr>items = [], quota = 5000000, accessible = True\<rparr>"


text \<open>\<^verbatim>\<open>{"syllabification":"cat","etymology":{},"synonyms":[],"forms":[]}\<close>\<close>

definition completeText :: string where
  "completeText =
    ''{'' @ [CHR 0x22] @ ''syllabification'' @ [CHR 0x22] @ '':'' @ [CHR 0x22] @ ''cat''
     @ [CHR 0x22] @ '','' @ [CHR 0x22] @ ''etymology'' @ [CHR 0x22] @ '':{},'' @ [CHR 0x22]
     @ ''synonyms'' @ [CHR 0x22] @ '':[],'' @ [CHR 0x22] @ ''forms'' @ [CHR 0x22] @ '':[]}''"

text \<open>\<^verbatim>\<open>{"error":"","syllabification":"cat","etymology":{},"synonyms":[],"forms":[]}\<close>\<close>

definition emptyErrorText :: string where
  "emptyErrorText =
    ''{'' @ [CHR 0x22] @ ''error'' @ [CHR 0x22] @ '':'' @ [CHR 0x22, CHR 0x22] @ '',''
     @ [CHR 0x22] @ ''syllabification'' @ [CHR 0x22] @ '':'' @ [CHR 0x22] @ ''cat''
     @ [CHR 0x22] @ '','' @ [CHR 0x22] @ ''etymology'' @ [CHR 0x22] @ '':{},'' @ [CHR 0x22]
     @ ''synonyms'' @ [CHR 0x22] @ '':[],'' @ [CHR 0x22] @ ''forms'' @ [CHR 0x22] @ '':[]}''"

text \<open>\<^verbatim>\<open>{"error":"not a word"}\<close>\<close>

definition notAWordText :: string where
  "notAWordText =
    ''{'' @ [CHR 0x22] @ ''error'' @ [CHR 0x22] @ '':'' @ [CHR 0x22] @ ''not a word''
     @ [CHR 0x22] @ ''}''"

text \<open>\<^verbatim>\<open>{"syllabification":"","etymology":{},"synonyms":[],"forms":[]}\<close>\<close>

definition emptySyllablesText :: string where
  "emptySyllablesText =
    ''{'' @ [CHR 0x22] @ ''syllabification'' @ [CHR 0x22] @ '':'' @ [CHR 0x22, CHR 0x22]
     @ '','' @ [CHR 0x22] @ ''etymology'' @ [CHR 0x22] @ '':{},'' @ [CHR 0x22]
     @ ''synonyms'' @ [CHR 0x22] @ '':[],'' @ [CHR 0x22] @ ''forms'' @ [CHR 0x22] @ '':[]}''"

text \<open>\<^verbatim>\<open>{"syllabification":"cat","etymology":{},"synonyms":[]}\<close>\<close>

definition noFormsText :: string where
  "noFormsText =
    ''{'' @ [CHR 0x22] @ ''syllabification'' @ [CHR 0x22] @ '':'' @ [CHR 0x22] @ ''cat''
     @ [CHR 0x22] @ '','' @ [CHR 0x22] @ ''etymology'' @ [CHR 0x22] @ '':{},'' @ [CHR 0x22]
     @ ''synonyms'' @ [CHR 0x22] @ '':[]}''"

text \<open>\<^verbatim>\<open>[{"word":"a","details":{},"similarWords":[]},{"word":"a","details":{},"similarWords":[]}]\<close>\<close>

definition duplicateText :: string where
  "duplicateText =
    ''[{'' @ [CHR 0x22] @ ''word'' @ [CHR 0x22] @ '':'' @ [CHR 0x22] @ ''a'' @ [CHR 0x22]
     @ '','' @ [CHR 0x22] @ ''details'' @ [CHR 0x22] @ '':{},'' @ [CHR 0x22]
     @ ''similarWords'' @ [CHR 0x22] @ '':[]},{'' @ [CHR 0x22] @ ''word'' @ [CHR 0x22]
     @ '':'' @ [CHR 0x22] @ ''a'' @ [CHR 0x22] @ '','' @ [CHR 0x22] @ ''details''
     @ [CHR 0x22] @ '':{},'' @ [CHR 0x22] @ ''similarWords'' @ [CHR 0x22] @ '':[]}]''"

definition completeData :: json where
  "completeData = JObj [(''syllabification'', JStr ''cat''), (''etymology'', JObj []),
                        (''synonyms'', JArr []), (''forms'', JArr [])]"

definition emptyErrorData :: json where
  "emptyErrorData = JObj [(''error'', JStr []), (''syllabification'', JStr ''cat''),
                          (''etymology'', JObj []), (''synonyms'', JArr []), (''forms'', JArr [])]"

definition emptySyllablesData :: json where
  "emptySyllablesData = JObj [(''syllabification'', JStr []), (''etymology'', JObj []),
                              (''synonyms'', JArr []), (''forms'', JArr [])]"

definition noFormsData :: json where
  "noFormsData = JObj [(''syllabification'', JStr ''cat''), (''etymology'', JObj []),
                       (''synonyms'', JArr [])]"

text \<open>A visit: a search for \<open>cat\<close>, the word saved and saved again, the page opened again.\<close>

definition visit :: "event list" where
  "visit = [TypeSearch '' CAT  '', SubmitSearch (Resolved (Some completeText)), TypeSimilar ''cap'',
            AddSimilar, SaveWord, SaveEffect, SaveWord, SaveEffect, Reload]"

definition catEntry :: SavedWord where
  "catEntry = \<lparr>word = ''cat'', details = completeData, similarWordsOf = [''cap'']\<rparr>"

section \<open>The order of the properties\<close>

lemma ownPropertyOrder_Nil [simp]: "ownPropertyOrder [] = []"
  by (simp add: ownPropertyOrder_def)

text \<open>An object without array indices lists its properties in the order of their creation.\<close>

lemma ownPropertyOrder_names:
  "list_all (\<lambda>kv. \<not> isArrayIndex (fst kv)) kvs \<Longrightarrow> ownPropertyOrder kvs = kvs"
  by (simp add: ownPropertyOrder_def list_all_iff)

lemma isArrayIndex_letter: "\<not> isDigit c \<Longrightarrow> \<not> isArrayIndex (c # cs)"
  by (simp add: isArrayIndex_def)

section \<open>The readers consume what they read\<close>

lemma map_reading_Read: "map_reading f x = Read a r \<longleftrightarrow> (\<exists>b. x = Read b r \<and> a = f b)"
  by (cases x) auto

lemma skip_ws_length: "length (skip_ws s) \<le> length s"
  by (simp add: skip_ws_def length_dropWhile_le)

lemma skip_ws_Cons_length: "skip_ws s = c # r \<Longrightarrow> length r < length s"
  using skip_ws_length [of s] by simp

lemma parse_chars_shorter: "parse_chars s = Read str r \<Longrightarrow> length r < length s"
proof (induction s arbitrary: str rule: parse_chars.induct)
  case 1
  then show ?case by simp
next
  case (2 c cs)
  show ?case
  proof (cases "c = CHR 0x22")
    case True
    then show ?thesis using "2.prems" by simp
  next
    case quote: False
    show ?thesis
    proof (cases "c = CHR 0x5C")
      case False
      then obtain str' where "parse_chars cs = Read str' r"
        using "2.prems" quote by (auto simp: map_reading_Read split: if_splits)
      then have "length r < length cs"
        using "2.IH"(3) quote False "2.prems" by (auto split: if_splits)
      then show ?thesis by simp
    next
      case True
      then obtain e es where es: "cs = e # es"
        using "2.prems" by (cases cs) auto
      show ?thesis
      proof (cases "e = CHR ''u''")
        case False
        then obtain u str' where "unescape e = Some u" "parse_chars es = Read str' r"
          using "2.prems" True es by (auto simp: map_reading_Read split: option.splits)
        then have "length r < length es"
          using "2.IH"(2) [OF quote True es False] by simp
        then show ?thesis by (simp add: es)
      next
        case u: True
        then obtain h1 h2 h3 h4 t where t: "es = h1 # h2 # h3 # h4 # t"
          using "2.prems" True es by (auto split: list.splits)
        then obtain a b h l str' where hex: "hex_value h1 = Some a" "hex_value h2 = Some b"
            "hex_value h3 = Some h" "hex_value h4 = Some l" "a = 0 \<and> b = 0"
            "parse_chars t = Read str' r"
          using "2.prems" True es u
          by (auto simp: map_reading_Read split: option.splits if_splits)
        then have "length r < length t"
          using "2.IH"(1) [OF quote True es u t] by auto
        then show ?thesis by (simp add: es t)
      qed
    qed
  qed
qed



lemma takeWhile_dropWhile_length:
  "length (takeWhile P s) + length (dropWhile P s) = length s"
  by (induction s) simp_all

lemma parse_natural_shorter:
  assumes "parse_natural s = Read n r"
  shows "length r < length s"
proof -
  have "takeWhile isDigit s \<noteq> []" and "r = dropWhile isDigit s"
    using assms by (simp_all add: parse_natural_def Let_def split: if_splits)
  then show ?thesis
    using takeWhile_dropWhile_length [of isDigit s] by (cases "takeWhile isDigit s") simp_all
qed

lemma parse_number_shorter:
  assumes "parse_number s = Read n r"
  shows "length r < length s"
proof (cases s)
  case Nil
  then show ?thesis using assms by (simp add: parse_number_def)
next
  case (Cons c cs)
  show ?thesis
  proof (cases "c = CHR ''-''")
    case True
    then obtain m where "parse_natural cs = Read m r"
      using assms Cons by (auto simp: parse_number_def map_reading_Read)
    then show ?thesis
      using parse_natural_shorter [of cs m r] Cons by simp
  next
    case False
    then have "parse_natural s = Read n r"
      using assms Cons by (simp add: parse_number_def)
    then show ?thesis
      by (rule parse_natural_shorter)
  qed
qed

lemma drop_shorter: "s \<noteq> [] \<Longrightarrow> 0 < k \<Longrightarrow> length (drop k s) < length s"
  by simp

lemma parse_literal_shorter:
  assumes "parse_literal s = Read v r"
  shows "length r < length s"
proof (cases "take 4 s = ''true'' \<or> take 5 s = ''false'' \<or> take 4 s = ''null''")
  case True
  then have "s \<noteq> []"
    by auto
  moreover have "r = drop 4 s \<or> r = drop 5 s"
    using assms True by (auto simp: parse_literal_def split: if_splits)
  ultimately show ?thesis
    using drop_shorter [of s 4] drop_shorter [of s 5] by auto
next
  case False
  then obtain n where "parse_number s = Read n r"
    using assms by (auto simp: parse_literal_def map_reading_Read)
  then show ?thesis
    by (rule parse_number_shorter)
qed

lemma reads_shorter:
  "parse_value s = Read v r \<Longrightarrow> length r < length s"
  "parse_elements s1 = Read vs r1 \<Longrightarrow> length r1 < length s1"
  "parse_members s2 = Read ms r2 \<Longrightarrow> length r2 < length s2"
proof (induction s and s1 and s2 arbitrary: v r and vs r1 and ms r2
    rule: parse_value_parse_elements_parse_members.induct)
  case (1 s)
  obtain c t where ct: "skip_ws s = c # t"
    using "1.prems" by (subst (asm) parse_value.simps) (auto split: list.splits)
  have t: "length t < length s"
    using ct by (rule skip_ws_Cons_length)
  consider (str) "c = CHR 0x22" | (arr) "c \<noteq> CHR 0x22" "c = CHR ''[''"
    | (obj) "c \<noteq> CHR 0x22" "c \<noteq> CHR ''[''" "c = CHR ''{''"
    | (lit) "c \<noteq> CHR 0x22" "c \<noteq> CHR ''[''" "c \<noteq> CHR ''{''"
    by blast
  then show ?case
  proof cases
    case str
    then obtain x where "parse_chars t = Read x r"
      using "1.prems" ct by (subst (asm) parse_value.simps) (auto simp: map_reading_Read)
    then show ?thesis
      using parse_chars_shorter [of t x r] t by simp
  next
    case arr
    obtain c' t' where ct': "skip_ws t = c' # t'"
      using "1.prems" ct arr by (subst (asm) parse_value.simps) (auto split: list.splits)
    show ?thesis
    proof (cases "c' = CHR '']''")
      case True
      then have "r = t'"
        using "1.prems" ct arr ct' by (subst (asm) parse_value.simps) simp
      then show ?thesis
        using skip_ws_Cons_length [OF ct'] t by simp
    next
      case False
      then obtain xs where "parse_elements t = Read xs r"
        using "1.prems" ct arr ct' by (subst (asm) parse_value.simps) (auto simp: map_reading_Read)
      then have "length r < length t"
        using "1.IH"(1) [OF ct arr ct' False] by simp
      then show ?thesis
        using t by simp
    qed
  next
    case obj
    obtain c' t' where ct': "skip_ws t = c' # t'"
      using "1.prems" ct obj by (subst (asm) parse_value.simps) (auto split: list.splits)
    show ?thesis
    proof (cases "c' = CHR ''}''")
      case True
      then have "r = t'"
        using "1.prems" ct obj ct' by (subst (asm) parse_value.simps) simp
      then show ?thesis
        using skip_ws_Cons_length [OF ct'] t by simp
    next
      case False
      then obtain xs where "parse_members t = Read xs r"
        using "1.prems" ct obj ct' by (subst (asm) parse_value.simps) (auto simp: map_reading_Read)
      then have "length r < length t"
        using "1.IH"(2) [OF ct obj ct' False] by simp
      then show ?thesis
        using t by simp
    qed
  next
    case lit
    then have "parse_literal (c # t) = Read v r"
      using "1.prems" ct by (subst (asm) parse_value.simps) simp
    then have "length r < length (c # t)"
      by (rule parse_literal_shorter)
    then show ?thesis
      using skip_ws_length [of s] ct by simp
  qed
next
  case (2 s)
  obtain x t where xt: "parse_value s = Read x t"
    using "2.prems" by (subst (asm) parse_elements.simps) (auto split: reading.splits)
  have t: "length t < length s"
    using "2.IH"(1) [OF xt] .
  obtain c t' where ct: "skip_ws t = c # t'"
    using "2.prems" xt by (subst (asm) parse_elements.simps) (auto split: list.splits)
  have t': "length t' < length s"
    using skip_ws_Cons_length [OF ct] t by simp
  show ?case
  proof (cases "c = CHR '']''")
    case True
    then have "r1 = t'"
      using "2.prems" xt ct by (subst (asm) parse_elements.simps) simp
    then show ?thesis
      using t' by simp
  next
    case False
    then have comma: "c = CHR '','' \<and> length t' < length s"
      using "2.prems" xt ct by (subst (asm) parse_elements.simps) (auto split: if_splits)
    then obtain xs where "parse_elements t' = Read xs r1"
      using "2.prems" xt ct False
      by (subst (asm) parse_elements.simps) (auto simp: map_reading_Read)
    then have "length r1 < length t'"
      using "2.IH"(2) [OF xt ct False comma] by simp
    then show ?thesis
      using t' by simp
  qed
next
  case (3 s)
  obtain q ks where qks: "skip_ws s = q # ks"
    using "3.prems" by (subst (asm) parse_members.simps) (auto split: list.splits)
  have q: "\<not> q \<noteq> CHR 0x22"
    using "3.prems" qks by (subst (asm) parse_members.simps) (auto split: if_splits)
  obtain k t0 where k: "parse_chars ks = Read k t0"
    using "3.prems" qks q by (subst (asm) parse_members.simps) (auto split: reading.splits)
  obtain colon t1 where colon: "skip_ws t0 = colon # t1"
    using "3.prems" qks q k by (subst (asm) parse_members.simps) (auto split: list.splits)
  have guard: "\<not> (colon \<noteq> CHR '':'' \<or> \<not> length t1 < length s)"
    using "3.prems" qks q k colon by (subst (asm) parse_members.simps) (auto split: if_splits)
  obtain x t where xt: "parse_value t1 = Read x t"
    using "3.prems" qks q k colon guard
    by (subst (asm) parse_members.simps) (auto split: reading.splits)
  have t: "length t < length t1"
    using "3.IH"(1) [OF qks q k colon guard xt] .
  obtain c t' where ct: "skip_ws t = c # t'"
    using "3.prems" qks q k colon guard xt
    by (subst (asm) parse_members.simps) (auto split: list.splits)
  have t': "length t' < length s"
    using skip_ws_Cons_length [OF ct] t guard by simp
  show ?case
  proof (cases "c = CHR ''}''")
    case True
    then have "r2 = t'"
      using "3.prems" qks q k colon guard xt ct by (subst (asm) parse_members.simps) simp
    then show ?thesis
      using t' by simp
  next
    case False
    then have comma: "c = CHR '','' \<and> length t' < length s"
      using "3.prems" qks q k colon guard xt ct
      by (subst (asm) parse_members.simps) (auto split: if_splits)
    then obtain xs where "parse_members t' = Read xs r2"
      using "3.prems" qks q k colon guard xt ct False
      by (subst (asm) parse_members.simps) (auto simp: map_reading_Read)
    then have "length r2 < length t'"
      using "3.IH"(2) [OF qks q k colon guard xt ct False comma] by simp
    then show ?thesis
      using t' by simp
  qed
qed

text \<open>The readers without the comparisons of lengths.\<close>

lemma parse_elements_unfold:
  "parse_elements s =
     (case parse_value s of
        Malformed \<Rightarrow> Malformed
      | Unsupported \<Rightarrow> Unsupported
      | Read v r \<Rightarrow>
          (case skip_ws r of
             [] \<Rightarrow> Malformed
           | c # r' \<Rightarrow>
               if c = CHR '']'' then Read [v] r'
               else if c = CHR '','' then map_reading ((#) v) (parse_elements r')
               else Malformed))"
proof (cases "parse_value s")
  case (Read v r)
  have "length r' < length s" if "skip_ws r = c # r'" for c r'
    using reads_shorter(1) [OF Read] skip_ws_Cons_length [OF that] by simp
  then show ?thesis
    by (subst parse_elements.simps) (simp add: Read split: list.split)
qed (subst parse_elements.simps, simp)+

lemma parse_members_unfold:
  "parse_members s =
     (case skip_ws s of
        [] \<Rightarrow> Malformed
      | q # ks \<Rightarrow>
          if q \<noteq> CHR 0x22 then Malformed
          else
            (case parse_chars ks of
               Malformed \<Rightarrow> Malformed
             | Unsupported \<Rightarrow> Unsupported
             | Read k r0 \<Rightarrow>
                 (case skip_ws r0 of
                    [] \<Rightarrow> Malformed
                  | colon # r1 \<Rightarrow>
                      if colon \<noteq> CHR '':'' then Malformed
                      else
                        (case parse_value r1 of
                           Malformed \<Rightarrow> Malformed
                         | Unsupported \<Rightarrow> Unsupported
                         | Read v r \<Rightarrow>
                             (case skip_ws r of
                                [] \<Rightarrow> Malformed
                              | c # r' \<Rightarrow>
                                  if c = CHR ''}'' then Read [(k, v)] r'
                                  else if c = CHR '','' then map_reading ((#) (k, v)) (parse_members r')
                                  else Malformed)))))"
proof -
  have colon: "length r1 < length s"
    if "skip_ws s = q # ks" "parse_chars ks = Read k r0" "skip_ws r0 = colon # r1"
    for q ks k r0 colon r1
    using skip_ws_Cons_length [OF that(1)] parse_chars_shorter [OF that(2)]
      skip_ws_Cons_length [OF that(3)] by simp
  have comma: "length r' < length s"
    if "skip_ws s = q # ks" "parse_chars ks = Read k r0" "skip_ws r0 = colon # r1"
      "parse_value r1 = Read v r" "skip_ws r = c # r'"
    for q ks k r0 colon r1 v r c r'
    using colon [OF that(1,2,3)] reads_shorter(1) [OF that(4)] skip_ws_Cons_length [OF that(5)]
    by simp
  show ?thesis
    by (subst parse_members.simps)
       (auto split: list.split reading.split simp: colon comma)
qed

section \<open>The readers return values of JSON.parse\<close>

lemma digit_value_nonneg: "0 \<le> digit_value c"
  by (auto simp: digit_value_def decimalDigits_def split: option.split if_splits)

lemma read_digits_nonneg: "0 \<le> read_digits ds"
proof -
  have "0 \<le> a \<Longrightarrow> 0 \<le> foldl (\<lambda>a d. 10 * a + digit_value d) a ds" for a
    by (induction ds arbitrary: a) (simp_all add: digit_value_nonneg)
  then show ?thesis
    by (simp add: read_digits_def)
qed

lemma parse_natural_range:
  assumes "parse_natural s = Read n r"
  shows "0 \<le> n \<and> n \<le> maxSafeInteger"
proof -
  have "n = read_digits (takeWhile isDigit s)" and "\<not> read_digits (takeWhile isDigit s) > maxSafeInteger"
    using assms by (simp_all add: parse_natural_def Let_def split: if_splits)
  then show ?thesis
    using read_digits_nonneg [of "takeWhile isDigit s"] by simp
qed

lemma parse_number_range:
  assumes "parse_number s = Read n r"
  shows "\<bar>n\<bar> \<le> maxSafeInteger"
proof (cases s)
  case Nil
  then show ?thesis using assms by (simp add: parse_number_def)
next
  case (Cons c cs)
  show ?thesis
  proof (cases "c = CHR ''-''")
    case True
    then obtain m where "parse_natural cs = Read m r" and "n = - m"
      using assms Cons by (auto simp: parse_number_def map_reading_Read)
    then show ?thesis
      using parse_natural_range [of cs m r] by simp
  next
    case False
    then have "parse_natural s = Read n r"
      using assms Cons by (simp add: parse_number_def)
    then show ?thesis
      using parse_natural_range [of s n r] by simp
  qed
qed

lemma parse_literal_parsed:
  assumes "parse_literal s = Read v r"
  shows "parsed_value v"
proof (cases "take 4 s = ''true'' \<or> take 5 s = ''false'' \<or> take 4 s = ''null''")
  case True
  then have "v = JBool True \<or> v = JBool False \<or> v = JNull"
    using assms by (auto simp: parse_literal_def split: if_splits)
  then show ?thesis by auto
next
  case False
  then obtain n where "parse_number s = Read n r" and "v = JNum n"
    using assms by (auto simp: parse_literal_def map_reading_Read)
  then show ?thesis
    using parse_number_range [of s n r] by simp
qed

lemma fold_update_distinct:
  "distinct (map fst acc) \<Longrightarrow> distinct (map fst (fold (\<lambda>(k, v). AList.update k v) ms acc))"
  by (induction ms arbitrary: acc) (auto simp: distinct_update)

lemma update_all_values:
  "list_all (\<lambda>kv. P (snd kv)) acc \<Longrightarrow> P v \<Longrightarrow> list_all (\<lambda>kv. P (snd kv)) (AList.update k v acc)"
  by (induction acc) auto

lemma fold_update_all_values:
  "list_all (\<lambda>kv. P (snd kv)) acc \<Longrightarrow> list_all (\<lambda>kv. P (snd kv)) ms \<Longrightarrow>
     list_all (\<lambda>kv. P (snd kv)) (fold (\<lambda>(k, v). AList.update k v) ms acc)"
proof (induction ms arbitrary: acc)
  case Nil
  then show ?case by simp
next
  case (Cons m ms)
  obtain k v where m: "m = (k, v)"
    by (cases m)
  have "list_all (\<lambda>kv. P (snd kv)) (AList.update k v acc)"
    using Cons.prems by (intro update_all_values) (simp_all add: m)
  then show ?case
    using Cons.IH [of "AList.update k v acc"] Cons.prems(2) by (simp add: m)
qed

lemma ownPropertyOrder_idem: "ownPropertyOrder (ownPropertyOrder kvs) = ownPropertyOrder kvs"
proof -
  let ?ix = "\<lambda>kv :: string \<times> 'a. isArrayIndex (fst kv)"
  let ?key = "\<lambda>kv :: string \<times> 'a. read_digits (fst kv)"
  have "filter ?ix (ownPropertyOrder kvs) = sort_key ?key (filter ?ix kvs)"
    by (simp add: ownPropertyOrder_def filter_sort)
  moreover have "filter (\<lambda>kv. \<not> ?ix kv) (ownPropertyOrder kvs) = filter (\<lambda>kv. \<not> ?ix kv) kvs"
    by (simp add: ownPropertyOrder_def filter_sort)
  moreover have "sort_key ?key (sort_key ?key (filter ?ix kvs)) = sort_key ?key (filter ?ix kvs)"
    by (intro sort_key_id_if_sorted sorted_sort_key)
  ultimately show ?thesis
    by (simp add: ownPropertyOrder_def)
qed

lemma set_ownPropertyOrder: "set (ownPropertyOrder kvs) = set kvs"
  by (auto simp: ownPropertyOrder_def)

lemma distinct_ownPropertyOrder:
  assumes "distinct (map fst kvs)"
  shows "distinct (map fst (ownPropertyOrder kvs))"
proof -
  have "distinct kvs" and "inj_on fst (set kvs)"
    using assms by (simp_all add: distinct_map)
  then have "distinct (ownPropertyOrder kvs)"
    by (auto simp: ownPropertyOrder_def)
  then show ?thesis
    using \<open>inj_on fst (set kvs)\<close> by (simp add: distinct_map set_ownPropertyOrder)
qed

lemma js_object_parsed:
  assumes "list_all (\<lambda>kv. parsed_value (snd kv)) ms"
  shows "parsed_value (JObj (js_object ms))"
proof -
  have "distinct (map fst (js_object ms))"
    using fold_update_distinct [of "[]" ms]
    by (simp add: js_object_def distinct_ownPropertyOrder)
  moreover have "list_all (\<lambda>kv. parsed_value (snd kv)) (js_object ms)"
    using fold_update_all_values [of parsed_value "[]" ms] assms
    by (simp add: js_object_def list_all_iff set_ownPropertyOrder)
  ultimately show ?thesis
    by (simp add: js_object_def ownPropertyOrder_idem)
qed

text \<open>What the readers return is a value that \<open>JSON.parse\<close> can return.\<close>

lemma reads_parsed:
  "parse_value s = Read v r \<Longrightarrow> parsed_value v"
  "parse_elements s1 = Read vs r1 \<Longrightarrow> list_all parsed_value vs"
  "parse_members s2 = Read ms r2 \<Longrightarrow> list_all (\<lambda>kv. parsed_value (snd kv)) ms"
proof (induction s and s1 and s2 arbitrary: v r and vs r1 and ms r2
    rule: parse_value_parse_elements_parse_members.induct)
  case (1 s)
  obtain c t where ct: "skip_ws s = c # t"
    using "1.prems" by (subst (asm) parse_value.simps) (auto split: list.splits)
  consider (str) "c = CHR 0x22" | (arr) "c \<noteq> CHR 0x22" "c = CHR ''[''"
    | (obj) "c \<noteq> CHR 0x22" "c \<noteq> CHR ''[''" "c = CHR ''{''"
    | (lit) "c \<noteq> CHR 0x22" "c \<noteq> CHR ''[''" "c \<noteq> CHR ''{''"
    by blast
  then show ?case
  proof cases
    case str
    then obtain x where "v = JStr x"
      using "1.prems" ct by (subst (asm) parse_value.simps) (auto simp: map_reading_Read)
    then show ?thesis by simp
  next
    case arr
    obtain c' t' where ct': "skip_ws t = c' # t'"
      using "1.prems" ct arr by (subst (asm) parse_value.simps) (auto split: list.splits)
    show ?thesis
    proof (cases "c' = CHR '']''")
      case True
      then have "v = JArr []"
        using "1.prems" ct arr ct' by (subst (asm) parse_value.simps) simp
      then show ?thesis by simp
    next
      case False
      then obtain xs where "parse_elements t = Read xs r" and "v = JArr xs"
        using "1.prems" ct arr ct' by (subst (asm) parse_value.simps) (auto simp: map_reading_Read)
      then show ?thesis
        using "1.IH"(1) [OF ct arr ct' False] by simp
    qed
  next
    case obj
    obtain c' t' where ct': "skip_ws t = c' # t'"
      using "1.prems" ct obj by (subst (asm) parse_value.simps) (auto split: list.splits)
    show ?thesis
    proof (cases "c' = CHR ''}''")
      case True
      then have "v = JObj []"
        using "1.prems" ct obj ct' by (subst (asm) parse_value.simps) simp
      then show ?thesis by simp
    next
      case False
      then obtain xs where "parse_members t = Read xs r" and "v = JObj (js_object xs)"
        using "1.prems" ct obj ct' by (subst (asm) parse_value.simps) (auto simp: map_reading_Read)
      then show ?thesis
        using "1.IH"(2) [OF ct obj ct' False] js_object_parsed by simp
    qed
  next
    case lit
    then have "parse_literal (c # t) = Read v r"
      using "1.prems" ct by (subst (asm) parse_value.simps) simp
    then show ?thesis
      by (rule parse_literal_parsed)
  qed
next
  case (2 s)
  obtain x t where xt: "parse_value s = Read x t"
    using "2.prems" by (subst (asm) parse_elements.simps) (auto split: reading.splits)
  have x: "parsed_value x"
    using "2.IH"(1) [OF xt] .
  obtain c t' where ct: "skip_ws t = c # t'"
    using "2.prems" xt by (subst (asm) parse_elements.simps) (auto split: list.splits)
  show ?case
  proof (cases "c = CHR '']''")
    case True
    then have "vs = [x]"
      using "2.prems" xt ct by (subst (asm) parse_elements.simps) simp
    then show ?thesis
      using x by simp
  next
    case False
    then have comma: "c = CHR '','' \<and> length t' < length s"
      using "2.prems" xt ct by (subst (asm) parse_elements.simps) (auto split: if_splits)
    then obtain xs where "parse_elements t' = Read xs r1" and "vs = x # xs"
      using "2.prems" xt ct False
      by (subst (asm) parse_elements.simps) (auto simp: map_reading_Read)
    then show ?thesis
      using "2.IH"(2) [OF xt ct False comma] x by simp
  qed
next
  case (3 s)
  obtain q ks where qks: "skip_ws s = q # ks"
    using "3.prems" by (subst (asm) parse_members.simps) (auto split: list.splits)
  have q: "\<not> q \<noteq> CHR 0x22"
    using "3.prems" qks by (subst (asm) parse_members.simps) (auto split: if_splits)
  obtain k t0 where k: "parse_chars ks = Read k t0"
    using "3.prems" qks q by (subst (asm) parse_members.simps) (auto split: reading.splits)
  obtain colon t1 where colon: "skip_ws t0 = colon # t1"
    using "3.prems" qks q k by (subst (asm) parse_members.simps) (auto split: list.splits)
  have guard: "\<not> (colon \<noteq> CHR '':'' \<or> \<not> length t1 < length s)"
    using "3.prems" qks q k colon by (subst (asm) parse_members.simps) (auto split: if_splits)
  obtain x t where xt: "parse_value t1 = Read x t"
    using "3.prems" qks q k colon guard
    by (subst (asm) parse_members.simps) (auto split: reading.splits)
  have x: "parsed_value x"
    using "3.IH"(1) [OF qks q k colon guard xt] .
  obtain c t' where ct: "skip_ws t = c # t'"
    using "3.prems" qks q k colon guard xt
    by (subst (asm) parse_members.simps) (auto split: list.splits)
  show ?case
  proof (cases "c = CHR ''}''")
    case True
    then have "ms = [(k, x)]"
      using "3.prems" qks q k colon guard xt ct by (subst (asm) parse_members.simps) simp
    then show ?thesis
      using x by simp
  next
    case False
    then have comma: "c = CHR '','' \<and> length t' < length s"
      using "3.prems" qks q k colon guard xt ct
      by (subst (asm) parse_members.simps) (auto split: if_splits)
    then obtain xs where "parse_members t' = Read xs r2" and "ms = (k, x) # xs"
      using "3.prems" qks q k colon guard xt ct False
      by (subst (asm) parse_members.simps) (auto simp: map_reading_Read)
    then show ?thesis
      using "3.IH"(2) [OF qks q k colon guard xt ct False comma] x by simp
  qed
qed

lemma JSON_parse_parsed_value: "JSON_parse text = Parsed v \<Longrightarrow> parsed_value v"
  by (auto simp: JSON_parse_def split: reading.splits if_splits dest: reads_parsed(1))

section \<open>Decimal numerals are read back\<close>

lemma decimalDigits_nth_mem: "k < 10 \<Longrightarrow> decimalDigits ! k \<in> set decimalDigits"
  by (rule nth_mem) (simp add: decimalDigits_def)

lemma digits_isDigit: "list_all isDigit (digits n)"
proof (induction n rule: digits.induct)
  case (1 n)
  show ?case
  proof (cases "n < 10")
    case True
    then show ?thesis
      by (subst digits.simps) (simp add: isDigit_def decimalDigits_nth_mem)
  next
    case False
    then have "list_all isDigit (digits (n div 10))"
      using "1" by simp
    moreover have "isDigit (decimalDigits ! (n mod 10))"
      by (simp add: isDigit_def decimalDigits_nth_mem)
    ultimately show ?thesis
      using False by (subst digits.simps) simp
  qed
qed

lemma digits_not_Nil: "digits n \<noteq> []"
  by (subst digits.simps) simp

lemma small_cases: "k < 10 \<Longrightarrow> k \<in> {0, 1, 2, 3, 4, 5, 6, 7, 8, 9::nat}"
  by auto

lemma digit_value_nth: "k < 10 \<Longrightarrow> digit_value (decimalDigits ! k) = int k"
  using small_cases [of k] by (auto simp: digit_value_def decimalDigits_def)

lemma nth_digit_zero: "k < 10 \<Longrightarrow> decimalDigits ! k = CHR ''0'' \<Longrightarrow> k = 0"
  using small_cases [of k] by (auto simp: decimalDigits_def)

lemma read_digits_snoc: "read_digits (ds @ [d]) = 10 * read_digits ds + digit_value d"
  by (simp add: read_digits_def)

lemma read_digits_digits: "read_digits (digits n) = int n"
proof (induction n rule: digits.induct)
  case (1 n)
  show ?case
  proof (cases "n < 10")
    case True
    then have "digits n = [decimalDigits ! n]"
      by (subst digits.simps) simp
    then show ?thesis
      using True by (simp add: read_digits_def digit_value_nth)
  next
    case False
    then have eq: "digits n = digits (n div 10) @ [decimalDigits ! (n mod 10)]"
      by (subst digits.simps) simp
    have "read_digits (digits (n div 10)) = int (n div 10)"
      using "1" False by simp
    then have "read_digits (digits n) = 10 * int (n div 10) + int (n mod 10)"
      by (simp only: eq read_digits_snoc) (simp add: digit_value_nth)
    then show ?thesis
      by (simp add: zdiv_int zmod_int)
  qed
qed

lemma hd_digits_pos: "0 < n \<Longrightarrow> hd (digits n) \<noteq> CHR ''0''"
proof (induction n rule: digits.induct)
  case (1 n)
  show ?case
  proof (cases "n < 10")
    case True
    then have "digits n = [decimalDigits ! n]"
      by (subst digits.simps) simp
    then show ?thesis
      using True "1.prems" nth_digit_zero [of n] by auto
  next
    case False
    then have eq: "digits n = digits (n div 10) @ [decimalDigits ! (n mod 10)]"
      by (subst digits.simps) simp
    have "0 < n div 10"
      using False by simp
    then have "hd (digits (n div 10)) \<noteq> CHR ''0''"
      using "1.IH" False by simp
    then show ?thesis
      by (simp add: eq digits_not_Nil)
  qed
qed

lemma digits_leading_zero: "hd (digits n) = CHR ''0'' \<Longrightarrow> tl (digits n) = []"
proof (cases "n = 0")
  case True
  then show ?thesis
    by (subst digits.simps) simp
next
  case False
  assume "hd (digits n) = CHR ''0''"
  with False hd_digits_pos [of n] show ?thesis
    by simp
qed

lemma delimited_not_digit: "delimited rest \<Longrightarrow> rest = [] \<or> \<not> isDigit (hd rest)"
  by (auto simp: delimited_def isDigit_def decimalDigits_def)

lemma delimited_not_fraction: "delimited rest \<Longrightarrow> rest = [] \<or> hd rest \<notin> set ''.eE''"
  by (auto simp: delimited_def)

lemma takeWhile_digits: "delimited rest \<Longrightarrow> takeWhile isDigit (digits n @ rest) = digits n"
  using digits_isDigit [of n] delimited_not_digit [of rest]
  by (cases rest) (auto simp: takeWhile_append2 list_all_iff)

lemma dropWhile_digits: "delimited rest \<Longrightarrow> dropWhile isDigit (digits n @ rest) = rest"
  using digits_isDigit [of n] delimited_not_digit [of rest]
  by (cases rest) (auto simp: dropWhile_append2 list_all_iff)

lemma parse_natural_digits:
  assumes "delimited rest" and "int n \<le> maxSafeInteger"
  shows "parse_natural (digits n @ rest) = Read (int n) rest"
  using assms delimited_not_fraction [of rest] digits_leading_zero [of n]
  by (auto simp: parse_natural_def takeWhile_digits dropWhile_digits digits_not_Nil
      read_digits_digits Let_def)

lemma hd_digits_isDigit: "isDigit (hd (digits n))"
  using digits_isDigit [of n] digits_not_Nil [of n]
  by (cases "digits n") simp_all

lemma parse_number_show_int:
  assumes "delimited rest" and "\<bar>n\<bar> \<le> maxSafeInteger"
  shows "parse_number (show_int n @ rest) = Read n rest"
proof (cases "n < 0")
  case True
  then have "int (nat (- n)) \<le> maxSafeInteger"
    using assms(2) by simp
  then show ?thesis
    using True assms(1) by (simp add: parse_number_def show_int_def parse_natural_digits)
next
  case False
  obtain d ds where ds: "digits (nat n) = d # ds"
    using digits_not_Nil [of "nat n"] by (cases "digits (nat n)") auto
  have "isDigit d"
    using hd_digits_isDigit [of "nat n"] ds by simp
  then have "d \<noteq> CHR ''-''"
    by (auto simp: isDigit_def decimalDigits_def)
  moreover have "parse_natural (digits (nat n) @ rest) = Read (int (nat n)) rest"
    using assms False by (intro parse_natural_digits) simp_all
  ultimately show ?thesis
    using False ds by (simp add: parse_number_def show_int_def)
qed

section \<open>Quoted strings are read back\<close>

lemma hex_value_table: "list_all (\<lambda>k. hex_value (hexDigits ! k) = Some k) [0..<16]"
  by code_simp

lemma hex_value_nth:
  assumes "k < 16"
  shows "hex_value (hexDigits ! k) = Some k"
proof -
  have "k \<in> set [0..<16]"
    using assms by (simp only: set_upt atLeastLessThan_iff le0 simp_thms)
  with hex_value_table show ?thesis
    unfolding list_all_iff by blast
qed

lemma hex_value_zero: "hex_value CHR ''0'' = Some 0"
  by (simp add: hex_value_def hexDigits_def)

lemma parse_chars_control:
  assumes "(of_char c :: nat) < 32"
  shows "parse_chars (CHR 0x5C # CHR ''u'' # CHR ''0'' # CHR ''0'' #
           hexDigits ! (of_char c div 16) # hexDigits ! (of_char c mod 16) # s)
         = map_reading ((#) c) (parse_chars s)"
proof -
  have "hex_value (hexDigits ! (of_char c div 16)) = Some (of_char c div 16)"
    using assms by (intro hex_value_nth) simp
  moreover have "hex_value (hexDigits ! (of_char c mod 16)) = Some (of_char c mod 16)"
    by (intro hex_value_nth) simp
  moreover have "char_of (16 * (of_char c div 16) + of_char c mod 16 :: nat) = c"
    by simp
  ultimately show ?thesis
    by (simp add: hex_value_zero)
qed

lemma parse_chars_escape:
  "parse_chars (escape_char c @ s) = map_reading ((#) c) (parse_chars s)"
proof -
  consider "c = CHR 0x22" | "c = CHR 0x5C" | "c = CHR 0x08" | "c = CHR 0x09" | "c = CHR 0x0A"
    | "c = CHR 0x0C" | "c = CHR 0x0D"
    | "c \<notin> {CHR 0x22, CHR 0x5C, CHR 0x08, CHR 0x09, CHR 0x0A, CHR 0x0C, CHR 0x0D}"
      "(of_char c :: nat) < 32"
    | "c \<notin> {CHR 0x22, CHR 0x5C, CHR 0x08, CHR 0x09, CHR 0x0A, CHR 0x0C, CHR 0x0D}"
      "\<not> (of_char c :: nat) < 32"
    by blast
  then show ?thesis
  proof cases
    case 8
    then have "escape_char c = [CHR 0x5C, CHR ''u'', CHR ''0'', CHR ''0'',
        hexDigits ! (of_char c div 16), hexDigits ! (of_char c mod 16)]"
      by (simp add: escape_char_def)
    then show ?thesis
      using parse_chars_control [OF 8(2), of s] by simp
  next
    case 9
    then have "escape_char c = [c]"
      by (simp add: escape_char_def)
    then show ?thesis
      using 9 by simp
  qed (simp_all add: escape_char_def unescape_def)
qed

lemma parse_chars_quoted:
  "parse_chars (concat (map escape_char s) @ CHR 0x22 # rest) = Read s rest"
  by (induction s) (simp_all add: parse_chars_escape)

section \<open>Serialized values are read back\<close>

lemma skip_ws_Cons: "\<not> isJsonSpace c \<Longrightarrow> skip_ws (c # s) = c # s"
  by (simp add: skip_ws_def)

lemma skip_ws_Nil: "skip_ws [] = []"
  by (simp add: skip_ws_def)

lemma opener_simps:
  "opener c \<Longrightarrow> \<not> isJsonSpace c"
  "opener c \<Longrightarrow> c \<noteq> CHR '']''"
  "opener c \<Longrightarrow> c \<noteq> CHR ''}''"
  by (auto simp: opener_def isJsonSpace_def)

lemma show_int_opener: "\<exists>c t. show_int n = c # t \<and> opener c \<and> c \<notin> set ''ntf[{'' \<and> c \<noteq> CHR 0x22"
proof (cases "n < 0")
  case True
  then show ?thesis by (simp add: show_int_def opener_def)
next
  case False
  obtain d ds where ds: "digits (nat n) = d # ds"
    using digits_not_Nil [of "nat n"] by (cases "digits (nat n)") auto
  have "isDigit d"
    using hd_digits_isDigit [of "nat n"] ds by simp
  then have "opener d \<and> d \<notin> set ''ntf[{'' \<and> d \<noteq> CHR 0x22"
    by (auto simp: isDigit_def decimalDigits_def opener_def)
  then show ?thesis
    using False ds by (simp add: show_int_def)
qed

lemma stringify_opener: "\<exists>c t. JSON_stringify j = c # t \<and> opener c"
proof (cases j)
  case (JNum n)
  then show ?thesis using show_int_opener [of n] by auto
qed (auto simp: opener_def quote_def)

lemma parse_value_literal:
  assumes "\<not> isJsonSpace c" "c \<noteq> CHR 0x22" "c \<noteq> CHR ''[''" "c \<noteq> CHR ''{''"
  shows "parse_value (c # s) = parse_literal (c # s)"
  using assms by (subst parse_value.simps) (simp add: skip_ws_Cons)

lemma parse_value_JNull: "parse_value (''null'' @ rest) = Read JNull rest"
  by (simp add: parse_value_literal isJsonSpace_def parse_literal_def)

lemma parse_value_JBool:
  "parse_value ((if b then ''true'' else ''false'') @ rest) = Read (JBool b) rest"
  by (simp add: parse_value_literal isJsonSpace_def parse_literal_def)

lemma parse_value_JNum:
  assumes "delimited rest" and "\<bar>n\<bar> \<le> maxSafeInteger"
  shows "parse_value (show_int n @ rest) = Read (JNum n) rest"
proof -
  obtain c t where ct: "show_int n = c # t" "opener c" "c \<notin> set ''ntf[{''" "c \<noteq> CHR 0x22"
    using show_int_opener [of n] by blast
  have "parse_value (c # t @ rest) = parse_literal (c # t @ rest)"
    using ct by (intro parse_value_literal) (auto simp: opener_simps)
  moreover have "parse_literal (c # t @ rest) = Read (JNum n) rest"
    using ct(3) parse_number_show_int [OF assms] by (simp add: parse_literal_def ct(1))
  ultimately show ?thesis
    by (simp add: ct(1))
qed

lemma parse_value_JStr: "parse_value (quote s @ rest) = Read (JStr s) rest"
  by (subst parse_value.simps)
     (simp add: quote_def skip_ws_Cons isJsonSpace_def parse_chars_quoted)

lemma delimited_simps:
  "delimited []" "delimited (CHR '','' # s)" "delimited (CHR '']'' # s)" "delimited (CHR ''}'' # s)"
  by (simp_all add: delimited_def)

lemma skip_ws_punct:
  "skip_ws (CHR '','' # s) = CHR '','' # s"
  "skip_ws (CHR '']'' # s) = CHR '']'' # s"
  "skip_ws (CHR ''}'' # s) = CHR ''}'' # s"
  "skip_ws (CHR '':'' # s) = CHR '':'' # s"
  "skip_ws (CHR 0x22 # s) = CHR 0x22 # s"
  "skip_ws (CHR ''['' # s) = CHR ''['' # s"
  "skip_ws (CHR ''{'' # s) = CHR ''{'' # s"
  by (simp_all add: skip_ws_def isJsonSpace_def)

text \<open>Reading back the elements of a non-empty array.\<close>

lemma parse_elements_commas:
  assumes "xs \<noteq> []"
    and "\<And>x rest. x \<in> set xs \<Longrightarrow> delimited rest \<Longrightarrow>
           parse_value (JSON_stringify x @ rest) = Read x rest"
  shows "parse_elements (commas (map JSON_stringify xs) @ CHR '']'' # rest) = Read xs rest"
  using assms
proof (induction xs rule: list_nonempty_induct)
  case (single x)
  have "parse_value (JSON_stringify x @ CHR '']'' # rest) = Read x (CHR '']'' # rest)"
    by (rule single) (simp_all add: delimited_simps)
  then show ?case
    by (subst parse_elements.simps) (simp add: skip_ws_punct)
next
  case (cons x xs)
  obtain y ys where ys: "xs = y # ys"
    using cons.hyps by (cases xs) auto
  let ?tail = "commas (map JSON_stringify xs) @ CHR '']'' # rest"
  have head: "parse_value (JSON_stringify x @ CHR '','' # ?tail) = Read x (CHR '','' # ?tail)"
    by (rule cons.prems) (simp_all add: delimited_simps)
  have tail: "parse_elements ?tail = Read xs rest"
    by (rule cons.IH) (simp add: cons.prems)
  have shape: "commas (map JSON_stringify (x # xs)) @ CHR '']'' # rest
      = JSON_stringify x @ CHR '','' # ?tail"
    by (simp add: ys)
  show ?case
    unfolding shape
    by (subst parse_elements.simps) (simp add: head tail skip_ws_punct)
qed

lemma stringify_JObj:
  "JSON_stringify (JObj kvs) = CHR ''{'' # commas (map member_text kvs) @ ''}''"
  by (simp add: member_text_def [abs_def] case_prod_beta comp_def)

lemma parse_members_commas:
  assumes "kvs \<noteq> []"
    and "\<And>k v rest. (k, v) \<in> set kvs \<Longrightarrow> delimited rest \<Longrightarrow>
           parse_value (JSON_stringify v @ rest) = Read v rest"
  shows "parse_members (commas (map member_text kvs) @ CHR ''}'' # rest) = Read kvs rest"
  using assms
proof (induction kvs rule: list_nonempty_induct)
  case (single kv)
  obtain k v where kv: "kv = (k, v)"
    by (cases kv)
  have "parse_value (JSON_stringify v @ CHR ''}'' # rest) = Read v (CHR ''}'' # rest)"
    by (rule single [of k v]) (simp_all add: delimited_simps kv)
  then show ?case
    by (subst parse_members.simps)
       (simp add: kv member_text_def quote_def skip_ws_punct parse_chars_quoted)
next
  case (cons kv kvs)
  obtain k v where kv: "kv = (k, v)"
    by (cases kv)
  obtain y ys where ys: "kvs = y # ys"
    using cons.hyps by (cases kvs) auto
  let ?tail = "commas (map member_text kvs) @ CHR ''}'' # rest"
  have head: "parse_value (JSON_stringify v @ CHR '','' # ?tail) = Read v (CHR '','' # ?tail)"
    by (rule cons.prems [of k v]) (simp_all add: delimited_simps kv)
  have tail: "parse_members ?tail = Read kvs rest"
  proof (rule cons.IH)
    fix k' v' r
    assume "(k', v') \<in> set kvs" and "delimited r"
    then show "parse_value (JSON_stringify v' @ r) = Read v' r"
      using cons.prems [of k' v' r] by simp
  qed
  have shape: "commas (map member_text (kv # kvs)) @ CHR ''}'' # rest
      = CHR 0x22 # concat (map escape_char k) @ CHR 0x22 # CHR '':'' #
        JSON_stringify v @ CHR '','' # ?tail"
    by (simp add: ys kv member_text_def quote_def)
  show ?case
    unfolding shape
    by (subst parse_members.simps)
       (simp add: head tail skip_ws_punct parse_chars_quoted kv)
qed

lemma fold_update_fresh:
  "distinct (map fst (acc @ ms)) \<Longrightarrow> fold (\<lambda>(k, v). AList.update k v) ms acc = acc @ ms"
proof (induction ms arbitrary: acc)
  case Nil
  then show ?case by simp
next
  case (Cons m ms)
  obtain k v where m: "m = (k, v)"
    by (cases m)
  have fresh: "k \<notin> fst ` set acc"
    using Cons.prems by (auto simp: m)
  have "AList.update k v acc = acc @ [(k, v)]"
    using fresh by (induction acc) auto
  moreover have "distinct (map fst ((acc @ [(k, v)]) @ ms))"
    using Cons.prems by (simp add: m)
  ultimately show ?case
    using Cons.IH [of "acc @ [(k, v)]"] by (simp add: m)
qed

lemma js_object_distinct:
  "distinct (map fst ms) \<Longrightarrow> ownPropertyOrder ms = ms \<Longrightarrow> js_object ms = ms"
  using fold_update_fresh [of "[]" ms] by (simp add: js_object_def)

text \<open>What was written is read back, whatever follows it, if that starts a new token.\<close>

lemma parse_value_stringify:
  "parsed_value j \<Longrightarrow> delimited rest \<Longrightarrow> parse_value (JSON_stringify j @ rest) = Read j rest"
proof (induction j arbitrary: rest)
  case JNull
  show ?case using parse_value_JNull by simp
next
  case (JBool b)
  show ?case using parse_value_JBool [of b rest] by simp
next
  case (JNum n)
  then show ?case using parse_value_JNum [of rest n] by simp
next
  case (JStr s)
  show ?case using parse_value_JStr by simp
next
  case (JArr xs)
  show ?case
  proof (cases "xs = []")
    case True
    then show ?thesis
      by (subst parse_value.simps) (simp add: skip_ws_punct)
  next
    case False
    then obtain x xs' where xs: "xs = x # xs'"
      by (cases xs) auto
    obtain c t where ct: "JSON_stringify x = c # t" "opener c"
      using stringify_opener [of x] by blast
    have elems: "parse_elements (commas (map JSON_stringify xs) @ CHR '']'' # rest) = Read xs rest"
    proof (rule parse_elements_commas [OF False])
      fix y r
      assume "y \<in> set xs" and "delimited r"
      then show "parse_value (JSON_stringify y @ r) = Read y r"
        using JArr.IH [of y r] JArr.prems(1) by (simp add: list_all_iff)
    qed
    obtain u where u: "commas (map JSON_stringify xs) @ CHR '']'' # rest = c # u"
      using ct(1) by (cases xs') (auto simp: xs)
    have shape: "JSON_stringify (JArr xs) @ rest = CHR ''['' # c # u"
      using u by simp
    have "skip_ws (c # u) = c # u" and "c \<noteq> CHR '']''"
      using ct(2) by (simp_all add: skip_ws_Cons opener_simps)
    then show ?thesis
      using elems unfolding shape u
      by (subst parse_value.simps) (simp add: skip_ws_punct)
  qed
next
  case (JObj kvs)
  show ?case
  proof (cases "kvs = []")
    case True
    then show ?thesis
      by (subst parse_value.simps) (simp add: skip_ws_punct)
  next
    case False
    have membs: "parse_members (commas (map member_text kvs) @ CHR ''}'' # rest) = Read kvs rest"
    proof (rule parse_members_commas [OF False])
      fix k v r
      assume "(k, v) \<in> set kvs" and "delimited r"
      then show "parse_value (JSON_stringify v @ r) = Read v r"
        using JObj.IH [of "(k, v)" v r] JObj.prems(1) by (auto simp: list_all_iff)
    qed
    obtain kv kvs' where kvs: "kvs = kv # kvs'"
      using False by (cases kvs) auto
    obtain u where u: "commas (map member_text kvs) @ CHR ''}'' # rest = CHR 0x22 # u"
      by (cases kvs') (auto simp: kvs member_text_def quote_def)
    have shape: "JSON_stringify (JObj kvs) @ rest = CHR ''{'' # CHR 0x22 # u"
      using u by (simp only: stringify_JObj) simp
    have "js_object kvs = kvs"
      using JObj.prems(1) by (simp add: js_object_distinct)
    then show ?thesis
      using membs unfolding shape u
      by (subst parse_value.simps) (simp add: skip_ws_punct)
  qed
qed

lemma JSON_parse_stringify: "parsed_value j \<Longrightarrow> JSON_parse (JSON_stringify j) = Parsed j"
  using parse_value_stringify [of j "[]"]
  by (simp add: JSON_parse_def delimited_simps skip_ws_Nil)

section \<open>Examples of the string operations and of the readers\<close>

lemma trim_example: "trim '' ab c  '' = ''ab c''"
  by (simp add: trim_def isWhiteSpace_def whiteSpace_def)

lemma toLowerCase_example: "toLowerCase ''Ab Z'' = ''ab z''"
  by (simp add: toLowerCase_def toLowerChar_def upperCase_def lowerCase_def)

lemma trim_cat: "trim ''cat'' = ''cat''"
  by (simp add: trim_def isWhiteSpace_def whiteSpace_def)

lemma toLowerCase_cat: "toLowerCase ''cat'' = ''cat''"
  by (simp add: toLowerCase_def toLowerChar_def upperCase_def lowerCase_def)

lemma JSON_parse_completeText: "JSON_parse completeText = Parsed completeData"
  unfolding completeText_def completeData_def by code_simp

lemma JSON_parse_emptyErrorText: "JSON_parse emptyErrorText = Parsed emptyErrorData"
  unfolding emptyErrorText_def emptyErrorData_def by code_simp

lemma JSON_parse_notAWordText: "JSON_parse notAWordText = Parsed (JObj [(''error'', JStr ''not a word'')])"
  unfolding notAWordText_def by code_simp

lemma JSON_parse_emptySyllablesText: "JSON_parse emptySyllablesText = Parsed emptySyllablesData"
  unfolding emptySyllablesText_def emptySyllablesData_def by code_simp

lemma JSON_parse_noFormsText: "JSON_parse noFormsText = Parsed noFormsData"
  unfolding noFormsText_def noFormsData_def by code_simp

lemma JSON_parse_duplicateText:
  "JSON_parse duplicateText = Parsed (jsonSavedWords [entry ''a'', entry ''a''])"
  unfolding duplicateText_def jsonSavedWords_def jsonSavedWord_def entry_def
  by code_simp

lemma JSON_parse_examples:
  "JSON_parse ''[1,'' = SyntaxError"
  "JSON_parse ''undefined'' = SyntaxError"
  "JSON_parse [] = SyntaxError"
  "JSON_parse ''01'' = SyntaxError"
  "JSON_parse ''1.5'' = OutsideModel"
  "JSON_parse '' [true, null,-20 ] '' = Parsed (JArr [JBool True, JNull, JNum (- 20)])"
  by code_simp+


lemma JSON_stringify_example:
  "JSON_stringify (JObj [(''a'', JArr [JNum (- 12), JNull, JStr [CHR 0x01, CHR 0x22, CHR 0x0A]])])
     = ''{'' @ [CHR 0x22] @ ''a'' @ [CHR 0x22] @ '':[-12,null,'' @ [CHR 0x22, CHR 0x5C] @ ''u0001''
       @ [CHR 0x5C, CHR 0x22, CHR 0x5C] @ ''n'' @ [CHR 0x22] @ '']}''"
  by code_simp

lemma toString_examples:
  "toString (JArr [JNum 1, JNull, JArr [JStr ''a'', JBool True]]) = Some ''1,,a,true''"
  "toString (JObj [(''a'', JNum 1)]) = Some ''[object Object]''"
  "toString (JObj [(''toString'', JNull)]) = None"
  by code_simp+

text \<open>
  More texts: white space, a name that comes twice, escapes, and the texts left to
  \<open>OutsideModel\<close>.
\<close>

lemma JSON_parse_more_examples:
  "JSON_parse (''{ '' @ [CHR 0x22] @ ''a'' @ [CHR 0x22] @ '' : [ ] , '' @ [CHR 0x22] @ ''b'' @ [CHR 0x22] @ '':{}, '' @ [CHR 0x22] @ ''a'' @ [CHR 0x22] @ '' : '' @ [CHR 0x22] @ ''x'' @ [CHR 0x5C] @ ''u0041'' @ [CHR 0x5C] @ ''n'' @ [CHR 0x22] @ '' }'') = Parsed (JObj [(''a'', JStr [CHR ''x'', CHR ''A'', CHR 0x0A]), (''b'', JObj [])])"
  "JSON_parse ([CHR 0x22, CHR 0x5C] @ ''u4e2d'' @ [CHR 0x22]) = OutsideModel"
  "JSON_parse (''{'' @ [CHR 0x22] @ ''a'' @ [CHR 0x22] @ '':1,}'') = SyntaxError"
  "JSON_parse (''[1 2]'') = SyntaxError"
  "JSON_parse ([CHR 0x22] @ ''a'') = SyntaxError"
  "JSON_parse ([CHR 0x22] @ ''a'' @ [CHR 0x09] @ ''b'' @ [CHR 0x22]) = SyntaxError"
  "JSON_parse (''tru'') = SyntaxError"
  "JSON_parse (''-0'') = Parsed (JNum 0)"
  "JSON_parse (''9007199254740991'') = Parsed (JNum 9007199254740991)"
  "JSON_parse (''9007199254740992'') = OutsideModel"
  "JSON_parse (''1e5'') = OutsideModel"
  "JSON_parse (''null x'') = SyntaxError"
  by code_simp+

text \<open>
  The order of the properties: \<^verbatim>\<open>{"b":1,"10":2,"9":3,"01":4,"4294967295":5,"b":6}\<close> is the
  object with the properties \<open>9\<close>, \<open>10\<close>, \<open>b\<close>, \<open>01\<close>, \<open>4294967295\<close> in that order, and
  it is written in that order.
\<close>

lemma JSON_parse_property_order:
  "JSON_parse (''{'' @ [CHR 0x22] @ ''b'' @ [CHR 0x22] @ '':1,'' @ [CHR 0x22] @ ''10'' @ [CHR 0x22]
      @ '':2,'' @ [CHR 0x22] @ ''9'' @ [CHR 0x22] @ '':3,'' @ [CHR 0x22] @ ''01'' @ [CHR 0x22]
      @ '':4,'' @ [CHR 0x22] @ ''4294967295'' @ [CHR 0x22] @ '':5,'' @ [CHR 0x22] @ ''b''
      @ [CHR 0x22] @ '':6}'')
     = Parsed (JObj [(''9'', JNum 3), (''10'', JNum 2), (''b'', JNum 6), (''01'', JNum 4),
                     (''4294967295'', JNum 5)])"
  "JSON_stringify (JObj [(''9'', JNum 3), (''10'', JNum 2), (''b'', JNum 6)])
     = ''{'' @ [CHR 0x22] @ ''9'' @ [CHR 0x22] @ '':3,'' @ [CHR 0x22] @ ''10'' @ [CHR 0x22]
        @ '':2,'' @ [CHR 0x22] @ ''b'' @ [CHR 0x22] @ '':6}''"
  by code_simp+

section \<open>The values of JSON.parse\<close>

text \<open>\<open>parsed_value\<close> holds of the values that \<open>JSON_parse\<close> returns, and of no other.\<close>

lemma parsed_value_iff: "parsed_value v \<longleftrightarrow> (\<exists>t. JSON_parse t = Parsed v)"
  using JSON_parse_stringify JSON_parse_parsed_value by blast

section \<open>Trimming and lower case\<close>






section \<open>The handlers\<close>

lemma trim_whiteSpace:
  assumes "list_all isWhiteSpace s"
  shows "trim s = []"
proof -
  have blank: "dropWhile isWhiteSpace s = []"
    using assms by (simp add: list_all_iff)
  show ?thesis
    unfolding trim_def blank by simp
qed

lemma handleAddSimilarWord_distinct:
  "distinct (similarWords st) \<Longrightarrow> distinct (similarWords (handleAddSimilarWord st))"
  by (simp add: handleAddSimilarWord_def)

lemma addSimilarWords_distinct:
  "distinct (similarWords st) \<Longrightarrow> distinct (similarWords (addSimilarWords submitted st))"
proof (induction submitted arbitrary: st)
  case Nil
  then show ?case by (simp add: addSimilarWords_def)
next
  case (Cons s submitted)
  have "distinct (similarWords (handleAddSimilarWord (typeSimilarWord s st)))"
    using Cons.prems by (intro handleAddSimilarWord_distinct) (simp add: typeSimilarWord_def)
  then show ?case
    using Cons.IH [of "handleAddSimilarWord (typeSimilarWord s st)"]
    by (simp add: addSimilarWords_def)
qed

lemma handleSaveWord_saved:
  assumes "currentWord st = Some w" and "w \<in> word ` set (savedWords st)"
  shows "handleSaveWord st = st"
  using assms by (auto simp: handleSaveWord_def list_ex_iff split: option.split)

lemma handleSaveWord_new:
  assumes "currentWord st = Some w" and "w \<noteq> []" and "wordDetails st = Some d" and "truthy d"
    and "w \<notin> word ` set (savedWords st)"
  shows "handleSaveWord st
     = st\<lparr>savedWords := \<lparr>word = w, details = d, similarWordsOf = similarWords st\<rparr> # savedWords st\<rparr>"
  using assms by (auto simp: handleSaveWord_def list_ex_iff)

lemma handleSaveWord_unique:
  assumes "uniqueByWord (savedWords st)"
  shows "uniqueByWord (savedWords (handleSaveWord st))"
  using assms
  by (auto simp: handleSaveWord_def uniqueByWord_def list_ex_iff split: option.split)

lemma handleDeleteWord_unique:
  assumes "uniqueByWord (savedWords st)"
  shows "uniqueByWord (savedWords (handleDeleteWord w st))"
  using assms by (simp add: handleDeleteWord_def uniqueByWord_def distinct_map_filter)

section \<open>The request\<close>

lemma isTruthy_field:
  "isTruthy (getProperty (JObj kvs) f) \<longleftrightarrow> (\<exists>v. map_of kvs f = Some v \<and> truthy v)"
  by (simp split: option.split)

lemma requireFields_object:
  "requireFields (JObj kvs)
     = (if \<forall>f \<in> set requiredFields. \<exists>v. map_of kvs f = Some v \<and> truthy v
        then Inr (JObj kvs) else Inl (Thrown_Error incompleteData))"
  unfolding requireFields_def isTruthy_field by (simp add: requiredFields_def)

lemma validate_error:
  assumes "map_of kvs ''error'' = Some e" and "truthy e"
  shows "validate h (JObj kvs) = Inl (Thrown_Error (thrownMessage h e))"
  using assms by (simp add: validate_def)

lemma validate_no_error:
  assumes "map_of kvs ''error'' = None \<or> (\<exists>e. map_of kvs ''error'' = Some e \<and> \<not> truthy e)"
  shows "validate h (JObj kvs) = requireFields (JObj kvs)"
  using assms by (auto simp: validate_def)

lemma fetchWordDetails_parsed:
  assumes "generateContent w = Resolved (Some text)" and "JSON_parse text = Parsed data"
  shows "fetchWordDetails h generateContent w
     = (case validate h data of
          Inr d \<Rightarrow> Outcome (Inr d)
        | Inl (Thrown_Error message) \<Rightarrow> Outcome (Inl (Thrown_Error (failurePrefix w @ message)))
        | Inl Thrown_other \<Rightarrow>
            Outcome (Inl (Thrown_Error (''An unknown error occurred while fetching details for ''
              @ [CHR 0x22] @ w @ [CHR 0x22] @ ''.''))))"
  using assms by (simp add: fetchWordDetails_def tryBlock_def)

lemma executeSearch_failed:
  assumes "trim wordToQuery \<noteq> []"
    and "fetchWordDetails h generateContent (toLowerCase (trim wordToQuery))
           = Outcome (Inl (Thrown_Error message))"
  shows "executeSearch h generateContent wordToQuery st
     = Outcome (st\<lparr>isLoading := False, error := Some message, wordDetails := None,
                   currentWord := None, similarWords := []\<rparr>,
                [toLowerCase (trim wordToQuery)])"
  using assms by (simp add: executeSearch_def Let_def)

lemma executeSearch_fetched:
  assumes "trim wordToQuery \<noteq> []"
    and "fetchWordDetails h generateContent (toLowerCase (trim wordToQuery)) = Outcome (Inr fetched)"
  shows "executeSearch h generateContent wordToQuery st
     = Outcome (st\<lparr>isLoading := False, error := None, wordDetails := Some fetched,
                   currentWord := Some (toLowerCase (trim wordToQuery)), similarWords := []\<rparr>,
                [toLowerCase (trim wordToQuery)])"
  using assms by (simp add: executeSearch_def Let_def)

lemma fetch_complete:
  "fetchWordDetails engine (answering completeText) w = Outcome (Inr completeData)"
  by (simp add: fetchWordDetails_def tryBlock_def answering_def JSON_parse_completeText)
     (simp add: completeData_def validate_def requireFields_def)

section \<open>The two effects\<close>

lemma those_asString: "those (map (asString \<circ> JStr) xs) = Some xs"
  by (induction xs) simp_all

lemma asSavedWord_jsonSavedWord: "asSavedWord (jsonSavedWord sw) = Some sw"
  by (simp add: asSavedWord_def jsonSavedWord_def those_asString)

lemma asSavedWords_jsonSavedWords: "asSavedWords (jsonSavedWords sws) = Some sws"
proof -
  have "those (map asSavedWord (map jsonSavedWord sws)) = Some sws"
    by (induction sws) (simp_all add: asSavedWord_jsonSavedWord)
  then show ?thesis
    by (simp add: asSavedWords_def jsonSavedWords_def)
qed

lemma parsed_value_jsonSavedWords:
  assumes "\<forall>sw \<in> set sws. parsed_value (details sw)"
  shows "parsed_value (jsonSavedWords sws)"
  using assms
  by (simp add: jsonSavedWords_def jsonSavedWord_def list_all_iff ownPropertyOrder_names
      isArrayIndex_letter isDigit_def decimalDigits_def)

lemma stringify_jsonSavedWords_not_Nil: "JSON_stringify (jsonSavedWords sws) \<noteq> []"
  by (simp add: jsonSavedWords_def)

text \<open>Loading from a store whose text parses to a collection.\<close>

lemma loadEffect_parsed:
  assumes "getItem ls LOCAL_STORAGE_KEY = Inr (Some saved)"
    and "JSON_parse saved = Parsed (jsonSavedWords sws)"
  shows "loadEffect ls st = Outcome (st\<lparr>savedWords := sws\<rparr>, [])"
proof -
  have "saved \<noteq> []"
    using assms(2) JSON_parse_examples(3) by auto
  then show ?thesis
    by (simp add: loadEffect_def assms asSavedWords_jsonSavedWords)
qed

text \<open>Loading from a store that holds the serialization of a collection.\<close>

lemma loadEffect_serialized:
  assumes "getItem ls LOCAL_STORAGE_KEY = Inr (Some (JSON_stringify (jsonSavedWords sws)))"
    and "\<forall>sw \<in> set sws. parsed_value (details sw)"
  shows "loadEffect ls st = Outcome (st\<lparr>savedWords := sws\<rparr>, [])"
proof -
  have "JSON_parse (JSON_stringify (jsonSavedWords sws)) = Parsed (jsonSavedWords sws)"
    using assms(2) by (intro JSON_parse_stringify parsed_value_jsonSavedWords)
  then show ?thesis
    using assms(1) by (rule loadEffect_parsed [rotated])
qed

lemma getItem_saveEffect:
  assumes "accessible ls"
    and "usage (AList.update LOCAL_STORAGE_KEY (JSON_stringify (jsonSavedWords (savedWords st))) (items ls))
           \<le> quota ls"
  shows "saveEffect ls st
           = (ls\<lparr>items := AList.update LOCAL_STORAGE_KEY
                     (JSON_stringify (jsonSavedWords (savedWords st))) (items ls)\<rparr>, [])"
    and "getItem (fst (saveEffect ls st)) LOCAL_STORAGE_KEY
           = Inr (Some (JSON_stringify (jsonSavedWords (savedWords st))))"
  using assms by (simp_all add: saveEffect_def setItem_def getItem_def update_conv')

section \<open>Valid states\<close>

text \<open>The details fetched and the details loaded are values that \<open>JSON.parse\<close> returned.\<close>

lemma validate_returns_data: "validate h data = Inr d \<Longrightarrow> d = data"
  by (auto simp: validate_def requireFields_def split: property.splits if_splits)

lemma fetchWordDetails_parsed_value:
  assumes "fetchWordDetails h generateContent w = Outcome (Inr d)"
  shows "parsed_value d"
proof -
  obtain t data where "JSON_parse t = Parsed data" and "validate h data = Inr d"
    using assms
    by (auto simp: fetchWordDetails_def tryBlock_def Let_def
        split: completion.splits parsed.splits run.splits sum.splits thrown.splits)
  then show ?thesis
    using validate_returns_data [of h data d] JSON_parse_parsed_value [of t data] by simp
qed

lemma those_map_Some:
  "those (map f xs) = Some ys \<Longrightarrow> list_all2 (\<lambda>x y. f x = Some y) xs ys"
proof (induction xs arbitrary: ys)
  case Nil
  then show ?case by simp
next
  case (Cons x xs)
  then obtain y ys' where "f x = Some y" "those (map f xs) = Some ys'" "ys = y # ys'"
    by (auto split: option.splits)
  then show ?case
    using Cons.IH by simp
qed

lemma asSavedWord_details:
  assumes "asSavedWord v = Some sw" and "parsed_value v"
  shows "parsed_value (details sw)"
proof -
  obtain k1 w k2 d k3 ss where v: "v = JObj [(k1, JStr w), (k2, d), (k3, JArr ss)]"
    using assms(1)
    by (auto simp: asSavedWord_def split: json.splits list.splits prod.splits)
  then have "details sw = d"
    using assms(1) by (auto simp: asSavedWord_def split: if_splits)
  then show ?thesis
    using assms(2) v by simp
qed

lemma asSavedWords_details:
  assumes "asSavedWords v = Some sws" and "parsed_value v"
  shows "\<forall>sw \<in> set sws. parsed_value (details sw)"
proof -
  obtain xs where v: "v = JArr xs" and "those (map asSavedWord xs) = Some sws"
    using assms(1) by (auto simp: asSavedWords_def split: json.splits)
  then have paired: "list_all2 (\<lambda>x sw. asSavedWord x = Some sw) xs sws"
    by (intro those_map_Some)
  have parsed: "\<forall>x \<in> set xs. parsed_value x"
    using assms(2) v by (simp add: list_all_iff)
  show ?thesis
  proof
    fix sw
    assume "sw \<in> set sws"
    then obtain i where i: "i < length sws" "sws ! i = sw"
      by (auto simp: in_set_conv_nth)
    then have "asSavedWord (xs ! i) = Some sw" and "xs ! i \<in> set xs"
      using paired by (auto simp: list_all2_conv_all_nth)
    then show "parsed_value (details sw)"
      using parsed asSavedWord_details by blast
  qed
qed

text \<open>Every handler and the load effect keep the state valid.\<close>

lemma validState_initial: "validState initial_state"
  by (simp add: validState_def initial_state_def)

lemma validState_handlers:
  assumes "validState st"
  shows "validState (handleSaveWord st)"
    and "validState (handleDeleteWord w st)"
    and "validState (handleAddSimilarWord st)"
    and "sw \<in> set (savedWords st) \<Longrightarrow> validState (handleSelectSavedWord sw st)"
  using assms
  by (auto simp: validState_def handleSaveWord_def handleDeleteWord_def handleAddSimilarWord_def
      handleSelectSavedWord_def split: option.splits)

lemma validState_executeSearch:
  assumes "validState st" and "executeSearch h generateContent wordToQuery st = Outcome (st', requests)"
  shows "validState st'"
proof (cases "trim wordToQuery = []")
  case True
  then show ?thesis
    using assms by (simp add: executeSearch_def)
next
  case False
  let ?w = "toLowerCase (trim wordToQuery)"
  show ?thesis
  proof (cases "fetchWordDetails h generateContent ?w")
    case Unmodelled
    then show ?thesis
      using assms(2) False by (simp add: executeSearch_def Let_def)
  next
    case (Outcome result)
    show ?thesis
    proof (cases result)
      case (Inr d)
      then have "parsed_value d"
        using Outcome fetchWordDetails_parsed_value by blast
      then show ?thesis
        using assms False Outcome Inr by (auto simp: executeSearch_def Let_def validState_def)
    next
      case (Inl t)
      then show ?thesis
        using assms False Outcome
        by (cases t) (auto simp: executeSearch_def Let_def validState_def)
    qed
  qed
qed

lemma validState_loadEffect:
  assumes "validState st" and "loadEffect ls st = Outcome (st', logged)"
  shows "validState st'"
proof (cases "\<exists>saved v sws. getItem ls LOCAL_STORAGE_KEY = Inr (Some saved) \<and> saved \<noteq> []
    \<and> JSON_parse saved = Parsed v \<and> asSavedWords v = Some sws")
  case True
  then obtain saved v sws where l: "getItem ls LOCAL_STORAGE_KEY = Inr (Some saved)" "saved \<noteq> []"
      "JSON_parse saved = Parsed v" "asSavedWords v = Some sws"
    by blast
  then have "st' = st\<lparr>savedWords := sws\<rparr>"
    using assms(2) by (simp add: loadEffect_def)
  moreover have "\<forall>sw \<in> set sws. parsed_value (details sw)"
    using asSavedWords_details [OF l(4)] JSON_parse_parsed_value [OF l(3)] by simp
  ultimately show ?thesis
    using assms(1) by (simp add: validState_def)
next
  case False
  then have "st' = st"
    using assms(2)
    by (auto simp: loadEffect_def split: sum.splits option.splits if_splits parsed.splits)
  then show ?thesis
    using assms(1) by simp
qed

section \<open>Runs of the program\<close>

text \<open>
  What the program writes under its key is the text of a valid collection unique by
  word, and that is what it loads; so every page of a run from a first start holds a
  collection unique by word.
\<close>

lemma executeSearch_savedWords:
  "executeSearch h generateContent wordToQuery st = Outcome (st', requests)
     \<Longrightarrow> savedWords st' = savedWords st"
  by (auto simp: executeSearch_def Let_def split: if_splits run.splits sum.splits thrown.splits)

lemma withStorage_Outcome:
  "withStorage ls r = Outcome (ls', st') \<longleftrightarrow> ls' = ls \<and> (\<exists>printed. r = Outcome (st', printed))"
  by (auto simp: withStorage_def split: run.splits)

lemma storedUnique_saveEffect:
  assumes "storedUnique ls" and "uniqueByWord (savedWords st)"
    and "\<forall>sw \<in> set (savedWords st). parsed_value (details sw)"
  shows "storedUnique (fst (saveEffect ls st))"
  using assms
  by (auto simp: saveEffect_def setItem_def storedUnique_def update_conv' split: if_splits)

lemma loadEffect_storedUnique:
  assumes "storedUnique ls" and "loadEffect ls st = Outcome (st', printed)"
  shows "st' = st \<or> (\<exists>sws. st' = st\<lparr>savedWords := sws\<rparr> \<and> uniqueByWord sws
           \<and> (\<forall>sw \<in> set sws. parsed_value (details sw)))"
proof (cases "getItem ls LOCAL_STORAGE_KEY")
  case (Inl e)
  then show ?thesis
    using assms(2) by (simp add: loadEffect_def)
next
  case (Inr held)
  show ?thesis
  proof (cases held)
    case None
    then show ?thesis
      using assms(2) Inr by (simp add: loadEffect_def)
  next
    case (Some saved)
    then have "map_of (items ls) LOCAL_STORAGE_KEY = Some saved"
      using Inr by (auto simp: getItem_def split: if_splits)
    then obtain sws where sws: "saved = JSON_stringify (jsonSavedWords sws)" "uniqueByWord sws"
        "\<forall>sw \<in> set sws. parsed_value (details sw)"
      using assms(1) by (auto simp: storedUnique_def)
    have "loadEffect ls st = Outcome (st\<lparr>savedWords := sws\<rparr>, [])"
      using Inr Some sws(1,3) by (intro loadEffect_serialized) simp_all
    then show ?thesis
      using assms(2) sws(2,3) by auto
  qed
qed

lemma pageInvariant_step:
  assumes "pageInvariant page" and "step h e page = Outcome page'"
  shows "pageInvariant page'"
proof -
  obtain ls st where page: "page = (ls, st)"
    by (cases page)
  have stored: "storedUnique ls" and valid: "validState st" and unique: "uniqueByWord (savedWords st)"
    using assms(1) by (simp_all add: pageInvariant_def page)
  show ?thesis
  proof (cases e)
    case (TypeSearch s)
    then show ?thesis
      using assms(2) stored valid unique by (auto simp: page pageInvariant_def validState_def)
  next
    case (SubmitSearch answer)
    then obtain st' printed where "page' = (ls, st')"
        and "executeSearch h (\<lambda>w. answer) (wordToSearch st) st = Outcome (st', printed)"
      using assms(2) by (cases page') (auto simp: page withStorage_Outcome handleFormSubmit_def)
    then show ?thesis
      using stored unique validState_executeSearch [OF valid] executeSearch_savedWords
      by (simp add: pageInvariant_def)
  next
    case (DoubleClick w answer)
    then obtain st' printed where "page' = (ls, st')"
        and search: "executeSearch h (\<lambda>w. answer) w (st\<lparr>wordToSearch := w\<rparr>) = Outcome (st', printed)"
      using assms(2) by (cases page') (auto simp: page withStorage_Outcome handleDoubleClickWord_def)
    moreover have "validState (st\<lparr>wordToSearch := w\<rparr>)"
      using valid by (simp add: validState_def)
    ultimately show ?thesis
      using stored unique validState_executeSearch [OF _ search] executeSearch_savedWords [OF search]
      by (simp add: pageInvariant_def)
  next
    case (TypeSimilar s)
    then show ?thesis
      using assms(2) stored valid unique
      by (auto simp: page pageInvariant_def validState_def typeSimilarWord_def)
  next
    case AddSimilar
    then show ?thesis
      using assms(2) stored unique validState_handlers(3) [OF valid]
      by (auto simp: page pageInvariant_def handleAddSimilarWord_def)
  next
    case SaveWord
    then show ?thesis
      using assms(2) stored validState_handlers(1) [OF valid] handleSaveWord_unique [OF unique]
      by (auto simp: page pageInvariant_def)
  next
    case (SelectSaved i)
    then show ?thesis
      using assms(2) stored valid unique validState_handlers(4) [OF valid, of "savedWords st ! i"]
      by (auto simp: page pageInvariant_def handleSelectSavedWord_def)
  next
    case (DeleteSaved i)
    then show ?thesis
      using assms(2) stored valid unique validState_handlers(2) [OF valid]
        handleDeleteWord_unique [OF unique]
      by (auto simp: page pageInvariant_def)
  next
    case OpenSidebar
    then show ?thesis
      using assms(2) stored valid unique by (auto simp: page pageInvariant_def validState_def)
  next
    case CloseSidebar
    then show ?thesis
      using assms(2) stored valid unique by (auto simp: page pageInvariant_def validState_def)
  next
    case SaveEffect
    then show ?thesis
      using assms(2) valid unique storedUnique_saveEffect [OF stored unique]
      by (auto simp: page pageInvariant_def validState_def)
  next
    case Reload
    then obtain st' printed where page': "page' = (ls, st')"
        and load: "loadEffect ls initial_state = Outcome (st', printed)"
      using assms(2) by (cases page') (auto simp: page withStorage_Outcome)
    have "validState st'"
      using validState_loadEffect [OF validState_initial load] .
    moreover have "uniqueByWord (savedWords st')"
      using loadEffect_storedUnique [OF stored load]
      by (auto simp: initial_state_def uniqueByWord_def)
    ultimately show ?thesis
      using stored by (simp add: page' pageInvariant_def)
  next
    case (SetQuota q)
    then show ?thesis
      using assms(2) stored valid unique by (auto simp: page pageInvariant_def storedUnique_def)
  next
    case (SetAccessible a)
    then show ?thesis
      using assms(2) stored valid unique by (auto simp: page pageInvariant_def storedUnique_def)
  next
    case ClearStorage
    then show ?thesis
      using assms(2) stored valid unique by (auto simp: page pageInvariant_def storedUnique_def)
  qed
qed

lemma pageInvariant_run_events:
  "pageInvariant page \<Longrightarrow> run_events h events page = Outcome page' \<Longrightarrow> pageInvariant page'"
proof (induction events arbitrary: page)
  case Nil
  then show ?case by simp
next
  case (Cons e events)
  then obtain next_page where "step h e page = Outcome next_page"
      and "run_events h events next_page = Outcome page'"
    by (auto split: run.splits)
  then show ?case
    using Cons.IH [of next_page] pageInvariant_step [OF Cons.prems(1)] by blast
qed

lemma pageInvariant_first:
  "map_of (items ls) LOCAL_STORAGE_KEY = None \<Longrightarrow> pageInvariant (ls, initial_state)"
  by (simp add: pageInvariant_def storedUnique_def validState_initial)
     (simp add: initial_state_def uniqueByWord_def)

text \<open>The visit, step by step.\<close>

lemma trim_CAT: "trim '' CAT  '' = ''CAT''"
  by (simp add: trim_def isWhiteSpace_def whiteSpace_def)

lemma toLowerCase_CAT: "toLowerCase ''CAT'' = ''cat''"
  by (simp add: toLowerCase_def toLowerChar_def upperCase_def lowerCase_def)

lemma parsed_value_completeData: "parsed_value completeData"
  by (simp add: completeData_def ownPropertyOrder_names isArrayIndex_letter isDigit_def
      decimalDigits_def)

lemma length_catEntry: "length (JSON_stringify (jsonSavedWords [catEntry])) = 115"
  by (simp add: catEntry_def completeData_def jsonSavedWords_def jsonSavedWord_def quote_def
      escape_char_def)

lemma visit_run:
  "run_events engine visit (emptyStore, initial_state)
     = Outcome (emptyStore\<lparr>items := [(LOCAL_STORAGE_KEY, JSON_stringify (jsonSavedWords [catEntry]))]\<rparr>,
                initial_state\<lparr>savedWords := [catEntry]\<rparr>)"
proof -
  define searched where "searched = initial_state\<lparr>wordToSearch := '' CAT  '',
      wordDetails := Some completeData, currentWord := Some ''cat''\<rparr>"
  define annotated where "annotated = searched\<lparr>similarWords := [''cap'']\<rparr>"
  define saved where "saved = annotated\<lparr>savedWords := [catEntry]\<rparr>"
  define written where "written
      = emptyStore\<lparr>items := [(LOCAL_STORAGE_KEY, JSON_stringify (jsonSavedWords [catEntry]))]\<rparr>"
  have service: "(\<lambda>w. Resolved (Some completeText)) = answering completeText"
    by (simp add: answering_def fun_eq_iff)
  have search: "handleFormSubmit engine (\<lambda>w. Resolved (Some completeText))
      (initial_state\<lparr>wordToSearch := '' CAT  ''\<rparr>) = Outcome (searched, [''cat''])"
    using executeSearch_fetched [of "'' CAT  ''" engine "answering completeText" completeData
        "initial_state\<lparr>wordToSearch := '' CAT  ''\<rparr>"] fetch_complete [of "''cat''"]
    by (simp add: handleFormSubmit_def service trim_CAT toLowerCase_CAT searched_def initial_state_def)
  have annotate: "handleAddSimilarWord (typeSimilarWord ''cap'' searched) = annotated"
    by (simp add: handleAddSimilarWord_def typeSimilarWord_def annotated_def searched_def
        initial_state_def trim_def isWhiteSpace_def whiteSpace_def)
  have save: "handleSaveWord annotated = saved"
    by (simp add: handleSaveWord_def saved_def annotated_def searched_def initial_state_def
        catEntry_def completeData_def)
  have again: "handleSaveWord saved = saved"
    by (rule handleSaveWord_saved [of _ "''cat''"])
       (simp_all add: saved_def annotated_def searched_def catEntry_def)
  have first_write: "saveEffect emptyStore saved = (written, [])"
    using getItem_saveEffect(1) [of emptyStore saved] length_catEntry
    by (simp add: saved_def written_def emptyStore_def usage_def LOCAL_STORAGE_KEY_def)
  have second_write: "saveEffect written saved = (written, [])"
    using getItem_saveEffect(1) [of written saved] length_catEntry
    by (simp add: saved_def written_def emptyStore_def usage_def LOCAL_STORAGE_KEY_def)
  have load: "loadEffect written initial_state = Outcome (initial_state\<lparr>savedWords := [catEntry]\<rparr>, [])"
    by (rule loadEffect_serialized)
       (simp_all add: written_def emptyStore_def getItem_def catEntry_def parsed_value_completeData)
  show ?thesis
    by (simp add: visit_def withStorage_def search annotate save again first_write second_write load)
       (simp add: written_def)
qed

text \<open>
  The load effect itself checks nothing: from a storage area whose text was not written
  by this program and lists a word twice, it installs the two entries.
\<close>

lemma load_installs_what_is_stored:
  "loadEffect (storeHolding duplicateText) initial_state
     = Outcome (initial_state\<lparr>savedWords := [entry ''a'', entry ''a'']\<rparr>, [])"
  by (simp add: loadEffect_def getItem_def storeHolding_def JSON_parse_duplicateText
      asSavedWords_jsonSavedWords)
     (simp add: duplicateText_def)

section \<open>The claims\<close>

text \<open>
  C1. Saving when an entry with the current word is already in the collection changes
  nothing. Saving and deleting keep a collection unique by word, and so does the way
  through the storage area: what the save effect wrote from a collection unique by word
  is loaded as a collection unique by word. Hence in every run of the program from a
  first start (nothing stored under its key), whatever the user does, whenever the save
  effect runs, however often the page is opened again and loads, and whatever room and
  access the storage area gives, the collection is unique by word.
\<close>

theorem saved_words_stay_unique:
  "(currentWord st = Some w \<and> w \<in> word ` set (savedWords st) \<longrightarrow> handleSaveWord st = st)
   \<and> (uniqueByWord (savedWords st) \<longrightarrow> uniqueByWord (savedWords (handleSaveWord st)))
   \<and> (uniqueByWord (savedWords st) \<longrightarrow> uniqueByWord (savedWords (handleDeleteWord w' st)))
   \<and> (accessible ls
        \<and> usage (AList.update LOCAL_STORAGE_KEY
                   (JSON_stringify (jsonSavedWords (savedWords st))) (items ls)) \<le> quota ls
        \<and> (\<forall>sw \<in> set (savedWords st). parsed_value (details sw))
        \<and> uniqueByWord (savedWords st)
      \<longrightarrow> (\<exists>loaded. loadEffect (fst (saveEffect ls st)) st' = Outcome (loaded, [])
                    \<and> uniqueByWord (savedWords loaded)))
   \<and> (map_of (items started) LOCAL_STORAGE_KEY = None
        \<and> run_events h events (started, initial_state) = Outcome (ended, shown)
      \<longrightarrow> uniqueByWord (savedWords shown))"
proof (intro conjI impI)
  assume "currentWord st = Some w \<and> w \<in> word ` set (savedWords st)"
  then show "handleSaveWord st = st"
    by (simp add: handleSaveWord_saved)
next
  assume "uniqueByWord (savedWords st)"
  then show "uniqueByWord (savedWords (handleSaveWord st))"
    by (rule handleSaveWord_unique)
next
  assume "uniqueByWord (savedWords st)"
  then show "uniqueByWord (savedWords (handleDeleteWord w' st))"
    by (rule handleDeleteWord_unique)
next
  assume a: "accessible ls
        \<and> usage (AList.update LOCAL_STORAGE_KEY
                   (JSON_stringify (jsonSavedWords (savedWords st))) (items ls)) \<le> quota ls
        \<and> (\<forall>sw \<in> set (savedWords st). parsed_value (details sw))
        \<and> uniqueByWord (savedWords st)"
  then have "getItem (fst (saveEffect ls st)) LOCAL_STORAGE_KEY
      = Inr (Some (JSON_stringify (jsonSavedWords (savedWords st))))"
    by (intro getItem_saveEffect(2)) simp_all
  then have "loadEffect (fst (saveEffect ls st)) st' = Outcome (st'\<lparr>savedWords := savedWords st\<rparr>, [])"
    using a by (intro loadEffect_serialized) simp_all
  then show "\<exists>loaded. loadEffect (fst (saveEffect ls st)) st' = Outcome (loaded, [])
                    \<and> uniqueByWord (savedWords loaded)"
    using a by simp
next
  assume "map_of (items started) LOCAL_STORAGE_KEY = None
        \<and> run_events h events (started, initial_state) = Outcome (ended, shown)"
  then have "pageInvariant (ended, shown)"
    using pageInvariant_run_events [of "(started, initial_state)" h events "(ended, shown)"]
      pageInvariant_first [of started]
    by simp
  then show "uniqueByWord (savedWords shown)"
    by (simp add: pageInvariant_def)
qed

theorem saved_words_stay_unique_witness:
  "handleSaveWord (shelf\<lparr>currentWord := Some ''b''\<rparr>) = shelf\<lparr>currentWord := Some ''b''\<rparr>
   \<and> uniqueByWord (savedWords (handleSaveWord shelf))
   \<and> uniqueByWord (savedWords (handleDeleteWord ''b'' shelf))
   \<and> (\<exists>loaded. loadEffect (fst (saveEffect emptyStore shelf)) initial_state = Outcome (loaded, [])
         \<and> uniqueByWord (savedWords loaded))
   \<and> map_of (items emptyStore) LOCAL_STORAGE_KEY = None
   \<and> run_events engine visit (emptyStore, initial_state)
       = Outcome (emptyStore\<lparr>items := [(LOCAL_STORAGE_KEY, JSON_stringify (jsonSavedWords [catEntry]))]\<rparr>,
                  initial_state\<lparr>savedWords := [catEntry]\<rparr>)
   \<and> uniqueByWord (savedWords (initial_state\<lparr>savedWords := [catEntry]\<rparr>))"
proof -
  have u: "uniqueByWord (savedWords shelf)"
    by (simp add: shelf_def entry_def uniqueByWord_def)
  have saved: "currentWord (shelf\<lparr>currentWord := Some ''b''\<rparr>) = Some ''b''
      \<and> ''b'' \<in> word ` set (savedWords (shelf\<lparr>currentWord := Some ''b''\<rparr>))"
    by (simp add: shelf_def entry_def)
  have room: "accessible emptyStore"
    by (simp add: emptyStore_def)
  have "length (JSON_stringify (jsonSavedWords (savedWords shelf))) = 133"
    by (simp add: shelf_def entry_def jsonSavedWords_def jsonSavedWord_def quote_def escape_char_def)
  then have fits: "usage (AList.update LOCAL_STORAGE_KEY
       (JSON_stringify (jsonSavedWords (savedWords shelf))) (items emptyStore)) \<le> quota emptyStore"
    by (simp add: emptyStore_def usage_def LOCAL_STORAGE_KEY_def)
  have valid: "\<forall>sw \<in> set (savedWords shelf). parsed_value (details sw)"
    by (simp add: shelf_def entry_def)
  have absent: "map_of (items emptyStore) LOCAL_STORAGE_KEY = None"
    by (simp add: emptyStore_def)
  show ?thesis
    using saved_words_stay_unique [where st = "shelf\<lparr>currentWord := Some ''b''\<rparr>" and w = "''b''"
        and w' = "''b''" and ls = emptyStore and st' = initial_state and started = emptyStore
        and h = engine and events = visit
        and ended = "emptyStore\<lparr>items := [(LOCAL_STORAGE_KEY, JSON_stringify (jsonSavedWords [catEntry]))]\<rparr>"
        and shown = "initial_state\<lparr>savedWords := [catEntry]\<rparr>"]
      saved_words_stay_unique [where st = shelf and w = "''d''"
        and w' = "''b''" and ls = emptyStore and st' = initial_state and started = emptyStore
        and h = engine and events = visit
        and ended = "emptyStore\<lparr>items := [(LOCAL_STORAGE_KEY, JSON_stringify (jsonSavedWords [catEntry]))]\<rparr>"
        and shown = "initial_state\<lparr>savedWords := [catEntry]\<rparr>"]
      u saved room fits valid absent visit_run
    by simp
qed

text \<open>
  C2, as amended. When the response parses to an object whose \<open>error\<close> field is truthy
  (a non-empty string, for one), the fetch fails with the message
  \<open>Failed to fetch details for "W": \<close> followed by the error converted to a string,
  which for a string is the string itself; the search ends with that message in
  \<open>error\<close>, with \<open>currentWord\<close> and \<open>wordDetails\<close> null and \<open>isLoading\<close> false.
\<close>

theorem truthy_error_fails:
  assumes "trim wordToQuery \<noteq> []"
    and "generateContent (toLowerCase (trim wordToQuery)) = Resolved (Some text)"
    and "JSON_parse text = Parsed (JObj kvs)"
    and "map_of kvs ''error'' = Some e"
    and "truthy e"
  shows "fetchWordDetails h generateContent (toLowerCase (trim wordToQuery))
           = Outcome (Inl (Thrown_Error
               (failurePrefix (toLowerCase (trim wordToQuery)) @ thrownMessage h e)))
       \<and> executeSearch h generateContent wordToQuery st
           = Outcome (st\<lparr>isLoading := False,
                         error := Some (failurePrefix (toLowerCase (trim wordToQuery))
                                         @ thrownMessage h e),
                         wordDetails := None, currentWord := None, similarWords := []\<rparr>,
                      [toLowerCase (trim wordToQuery)])
       \<and> (\<forall>s. e = JStr s \<longrightarrow> thrownMessage h e = s)"
proof -
  let ?w = "toLowerCase (trim wordToQuery)"
  have fetch: "fetchWordDetails h generateContent ?w
      = Outcome (Inl (Thrown_Error (failurePrefix ?w @ thrownMessage h e)))"
    using fetchWordDetails_parsed [where generateContent = generateContent and w = ?w and h = h,
        OF assms(2,3)] validate_error [OF assms(4,5), of h]
    by simp
  show ?thesis
    using executeSearch_failed [OF assms(1) fetch, of st] fetch
    by (simp add: thrownMessage_def)
qed

theorem truthy_error_fails_witness:
  "fetchWordDetails engine (answering notAWordText) ''cat''
      = Outcome (Inl (Thrown_Error (failurePrefix ''cat'' @ ''not a word'')))
   \<and> executeSearch engine (answering notAWordText) ''cat'' shelf
      = Outcome (shelf\<lparr>isLoading := False, error := Some (failurePrefix ''cat'' @ ''not a word''),
                      wordDetails := None, currentWord := None, similarWords := []\<rparr>,
                 [''cat''])"
proof -
  have 1: "trim ''cat'' \<noteq> []"
    by (simp add: trim_cat)
  have 2: "answering notAWordText (toLowerCase (trim ''cat'')) = Resolved (Some notAWordText)"
    by (simp add: answering_def)
  have 4: "map_of [(''error'', JStr ''not a word'')] ''error'' = Some (JStr ''not a word'')"
    by simp
  have 5: "truthy (JStr ''not a word'')"
    by simp
  show ?thesis
    using truthy_error_fails [where wordToQuery = "''cat''"
        and generateContent = "answering notAWordText" and h = engine and st = shelf,
        OF 1 2 JSON_parse_notAWordText 4 5]
    by (simp add: trim_cat toLowerCase_cat thrownMessage_def)
qed

text \<open>
  C2 as stated fails when the \<open>error\<close> field is there and falsy: with an empty error
  string beside the four fields, the fetch succeeds and the word stays displayed.
\<close>

theorem error_field_counterexample:
  "JSON_parse emptyErrorText = Parsed emptyErrorData
   \<and> getProperty emptyErrorData ''error'' = Value (JStr [])
   \<and> fetchWordDetails engine (answering emptyErrorText) ''cat'' = Outcome (Inr emptyErrorData)
   \<and> executeSearch engine (answering emptyErrorText) ''cat'' initial_state
       = Outcome (initial_state\<lparr>wordDetails := Some emptyErrorData, currentWord := Some ''cat''\<rparr>,
                  [''cat''])"
proof -
  have fetch: "fetchWordDetails engine (answering emptyErrorText) ''cat'' = Outcome (Inr emptyErrorData)"
    by (simp add: fetchWordDetails_def tryBlock_def answering_def JSON_parse_emptyErrorText)
       (simp add: emptyErrorData_def validate_def requireFields_def)
  have "trim ''cat'' \<noteq> []"
    by (simp add: trim_cat)
  then have "executeSearch engine (answering emptyErrorText) ''cat'' initial_state
       = Outcome (initial_state\<lparr>wordDetails := Some emptyErrorData, currentWord := Some ''cat''\<rparr>,
                  [''cat''])"
    using executeSearch_fetched [of "''cat''" engine "answering emptyErrorText" emptyErrorData
        initial_state] fetch
    by (simp add: trim_cat toLowerCase_cat initial_state_def)
  then show ?thesis
    using fetch by (simp add: JSON_parse_emptyErrorText) (simp add: emptyErrorData_def)
qed

text \<open>
  C3. For an input that is empty or made of white space only, the search sends no
  request and leaves the whole state as it was.
\<close>

theorem executeSearch_blank_input:
  "list_all isWhiteSpace wordToQuery \<Longrightarrow>
     executeSearch h generateContent wordToQuery st = Outcome (st, [])"
  by (simp add: executeSearch_def trim_whiteSpace)

theorem executeSearch_blank_input_witness:
  "list_all isWhiteSpace [CHR 0x20, CHR 0x09, CHR 0xA0]
   \<and> executeSearch engine (answering completeText) [CHR 0x20, CHR 0x09, CHR 0xA0] shelf
       = Outcome (shelf, [])
   \<and> executeSearch engine (answering completeText) [] shelf = Outcome (shelf, [])"
proof -
  have blank: "list_all isWhiteSpace [CHR 0x20, CHR 0x09, CHR 0xA0]"
    by (simp add: isWhiteSpace_def whiteSpace_def)
  have empty: "list_all isWhiteSpace []"
    by simp
  show ?thesis
    using blank executeSearch_blank_input [OF blank, of engine "answering completeText" shelf]
      executeSearch_blank_input [OF empty, of engine "answering completeText" shelf]
    by simp
qed



text \<open>
  C5, as amended. For a response that parses to an object without an \<open>error\<close> field,
  the fetch fails with the incomplete-data error if and only if one of
  \<open>syllabification\<close>, \<open>etymology\<close>, \<open>synonyms\<close>, \<open>forms\<close> is absent or falsy (null,
  false, 0, the empty string); otherwise it returns the parsed object itself.
\<close>

theorem validation_requires_truthy_fields:
  assumes "generateContent w = Resolved (Some text)"
    and "JSON_parse text = Parsed (JObj kvs)"
    and "map_of kvs ''error'' = None"
  shows "(fetchWordDetails h generateContent w
            = Outcome (Inl (Thrown_Error (failurePrefix w @ incompleteData)))
          \<longleftrightarrow> (\<exists>f \<in> set requiredFields.
                 map_of kvs f = None \<or> (\<exists>v. map_of kvs f = Some v \<and> \<not> truthy v)))
       \<and> (fetchWordDetails h generateContent w = Outcome (Inr (JObj kvs))
          \<longleftrightarrow> (\<forall>f \<in> set requiredFields. \<exists>v. map_of kvs f = Some v \<and> truthy v))"
proof -
  have absent_or_falsy:
    "(\<exists>f \<in> set requiredFields. map_of kvs f = None \<or> (\<exists>v. map_of kvs f = Some v \<and> \<not> truthy v))
      \<longleftrightarrow> \<not> (\<forall>f \<in> set requiredFields. \<exists>v. map_of kvs f = Some v \<and> truthy v)"
    by (metis option.exhaust option.inject option.distinct(1))
  have "validate h (JObj kvs) = requireFields (JObj kvs)"
    using assms(3) by (simp add: validate_no_error)
  then have "fetchWordDetails h generateContent w
      = (if \<forall>f \<in> set requiredFields. \<exists>v. map_of kvs f = Some v \<and> truthy v
         then Outcome (Inr (JObj kvs))
         else Outcome (Inl (Thrown_Error (failurePrefix w @ incompleteData))))"
    using fetchWordDetails_parsed [where generateContent = generateContent and w = w and h = h,
        OF assms(1,2)] by (simp add: requireFields_object)
  then show ?thesis
    unfolding absent_or_falsy by simp
qed

theorem validation_requires_truthy_fields_witness:
  "fetchWordDetails engine (answering noFormsText) ''cat''
      = Outcome (Inl (Thrown_Error (failurePrefix ''cat'' @ incompleteData)))
   \<and> fetchWordDetails engine (answering completeText) ''cat'' = Outcome (Inr completeData)"
proof -
  have a: "answering noFormsText ''cat'' = Resolved (Some noFormsText)"
    and b: "answering completeText ''cat'' = Resolved (Some completeText)"
    by (simp_all add: answering_def)
  have c: "map_of [(''syllabification'', JStr ''cat''), (''etymology'', JObj []), (''synonyms'', JArr [])]
       ''error'' = None"
    by simp
  have d: "map_of [(''syllabification'', JStr ''cat''), (''etymology'', JObj []),
        (''synonyms'', JArr []), (''forms'', JArr [])] ''error'' = None"
    by simp
  show ?thesis
    using validation_requires_truthy_fields [where h = engine
        and generateContent = "answering noFormsText" and w = "''cat''",
        OF a JSON_parse_noFormsText [unfolded noFormsData_def] c]
      validation_requires_truthy_fields [where h = engine
        and generateContent = "answering completeText" and w = "''cat''",
        OF b JSON_parse_completeText [unfolded completeData_def] d]
    by (simp add: requiredFields_def completeData_def)
qed

text \<open>
  C5 as stated fails for a field that is present and falsy: with an empty
  \<open>syllabification\<close> all four fields are there, there is no \<open>error\<close> field, and the
  fetch fails with the incomplete-data error.
\<close>

theorem present_but_empty_counterexample:
  "JSON_parse emptySyllablesText = Parsed emptySyllablesData
   \<and> getProperty emptySyllablesData ''error'' = Undefined
   \<and> getProperty emptySyllablesData ''syllabification'' = Value (JStr [])
   \<and> getProperty emptySyllablesData ''etymology'' = Value (JObj [])
   \<and> getProperty emptySyllablesData ''synonyms'' = Value (JArr [])
   \<and> getProperty emptySyllablesData ''forms'' = Value (JArr [])
   \<and> fetchWordDetails engine (answering emptySyllablesText) ''cat''
       = Outcome (Inl (Thrown_Error (failurePrefix ''cat'' @ incompleteData)))"
proof -
  have "fetchWordDetails engine (answering emptySyllablesText) ''cat''
       = Outcome (Inl (Thrown_Error (failurePrefix ''cat'' @ incompleteData)))"
    by (simp add: fetchWordDetails_def tryBlock_def answering_def JSON_parse_emptySyllablesText)
       (simp add: emptySyllablesData_def validate_def requireFields_def)
  then show ?thesis
    by (simp add: JSON_parse_emptySyllablesText) (simp add: emptySyllablesData_def)
qed

text \<open>
  C6. Deleting the word \<open>w\<close> removes exactly the entries whose word is \<open>w\<close>: the
  entries left are those of the collection with another word, they are a subsequence of
  it (same relative order), the entries with another word are the same list before and
  after, and nothing else in the state changes.
\<close>

theorem handleDeleteWord_removes_exactly:
  "(\<forall>sw. sw \<in> set (savedWords (handleDeleteWord w st)) \<longleftrightarrow> sw \<in> set (savedWords st) \<and> word sw \<noteq> w)
   \<and> subseq (savedWords (handleDeleteWord w st)) (savedWords st)
   \<and> filter (\<lambda>sw. word sw \<noteq> w) (savedWords (handleDeleteWord w st))
       = filter (\<lambda>sw. word sw \<noteq> w) (savedWords st)
   \<and> handleDeleteWord w st = st\<lparr>savedWords := savedWords (handleDeleteWord w st)\<rparr>"
  by (simp add: handleDeleteWord_def)

theorem handleDeleteWord_removes_exactly_witness:
  "savedWords (handleDeleteWord ''b'' shelf) = [entry ''a'', entry ''c'']"
  using handleDeleteWord_removes_exactly [of "''b''" shelf]
  by (simp add: shelf_def entry_def handleDeleteWord_def)




text \<open>
  C8. At startup, when the storage key is absent or its content is not JSON, the
  collection stays the empty one of the initial state, the failure to parse is logged
  with \<open>console.error\<close> and nowhere else (\<open>error\<close> stays null), and the state is the
  initial one, ready for every handler.
\<close>

theorem load_absent_or_unparsable:
  assumes "getItem ls LOCAL_STORAGE_KEY = Inr None
      \<or> (\<exists>saved. getItem ls LOCAL_STORAGE_KEY = Inr (Some saved) \<and> JSON_parse saved = SyntaxError)"
  shows "loadEffect ls initial_state
           = Outcome (initial_state,
                      if getItem ls LOCAL_STORAGE_KEY = Inr None
                         \<or> getItem ls LOCAL_STORAGE_KEY = Inr (Some [])
                      then [] else [loadFailed])
       \<and> savedWords initial_state = []
       \<and> error initial_state = None
       \<and> \<not> isLoading initial_state"
proof (cases "getItem ls LOCAL_STORAGE_KEY = Inr None")
  case True
  then show ?thesis
    by (simp add: loadEffect_def initial_state_def)
next
  case False
  then obtain saved where "getItem ls LOCAL_STORAGE_KEY = Inr (Some saved)"
      and "JSON_parse saved = SyntaxError"
    using assms by blast
  then show ?thesis
    by (simp add: loadEffect_def initial_state_def)
qed

theorem load_absent_or_unparsable_witness:
  "loadEffect emptyStore initial_state = Outcome (initial_state, [])
   \<and> loadEffect (storeHolding ''[1,'') initial_state = Outcome (initial_state, [loadFailed])"
proof -
  have absent: "getItem emptyStore LOCAL_STORAGE_KEY = Inr None"
    by (simp add: getItem_def emptyStore_def)
  have held: "getItem (storeHolding ''[1,'') LOCAL_STORAGE_KEY = Inr (Some ''[1,'')"
    by (simp add: getItem_def storeHolding_def)
  have unparsable: "\<exists>saved. getItem (storeHolding ''[1,'') LOCAL_STORAGE_KEY = Inr (Some saved)
      \<and> JSON_parse saved = SyntaxError"
    using held JSON_parse_examples(1) by blast
  show ?thesis
    using load_absent_or_unparsable [of emptyStore, OF disjI1, OF absent]
      load_absent_or_unparsable [of "storeHolding ''[1,''", OF disjI2, OF unparsable]
      absent held
    by simp
qed

text \<open>
  C9, as amended. Saving a displayed word (a non-empty current word with truthy
  details) that is not in the collection puts the new entry, made of the word, its
  details and the current similar words, at the front of the collection; the prior
  entries keep their relative order, each one position further, and nothing else in the
  state changes.
\<close>

theorem handleSaveWord_puts_new_entry_first:
  assumes "currentWord st = Some w" and "w \<noteq> []" and "wordDetails st = Some d" and "truthy d"
    and "w \<notin> word ` set (savedWords st)"
  shows "savedWords (handleSaveWord st)
           = \<lparr>word = w, details = d, similarWordsOf = similarWords st\<rparr> # savedWords st
       \<and> (\<forall>i < length (savedWords st). savedWords (handleSaveWord st) ! Suc i = savedWords st ! i)
       \<and> handleSaveWord st = st\<lparr>savedWords := savedWords (handleSaveWord st)\<rparr>"
  by (simp add: handleSaveWord_new [OF assms])

theorem handleSaveWord_puts_new_entry_first_witness:
  "savedWords (handleSaveWord shelf)
     = [\<lparr>word = ''d'', details = JObj [], similarWordsOf = [''x'']\<rparr>, entry ''a'', entry ''b'', entry ''c'']"
proof -
  have 1: "currentWord shelf = Some ''d''" and 2: "''d'' \<noteq> []"
    and 3: "wordDetails shelf = Some (JObj [])" and 4: "truthy (JObj [])"
    and 5: "''d'' \<notin> word ` set (savedWords shelf)"
    by (simp_all add: shelf_def entry_def)
  show ?thesis
    using handleSaveWord_puts_new_entry_first [OF 1 2 3 4 5] by (simp add: shelf_def)
qed

text \<open>
  C9 as stated fails: the entry saved is not at the end, and the first entry of the
  collection does not keep its position.
\<close>

theorem handleSaveWord_appends_counterexample:
  "currentWord shelf = Some ''d''
   \<and> ''d'' \<notin> word ` set (savedWords shelf)
   \<and> savedWords (handleSaveWord shelf)
       \<noteq> savedWords shelf @ [\<lparr>word = ''d'', details = JObj [], similarWordsOf = [''x'']\<rparr>]
   \<and> savedWords (handleSaveWord shelf) ! 0 \<noteq> savedWords shelf ! 0"
  by (simp add: handleSaveWord_def shelf_def entry_def initial_state_def)

text \<open>
  C10. For every list of similar words and every submitted annotation, adding is a no-op
  when the trimmed annotation is empty or already in the list; otherwise exactly the
  trimmed annotation is appended at the end. A list built from the empty one by typing
  and submitting annotations has no duplicates.
\<close>

theorem handleAddSimilarWord_appends_new_only:
  "(trim (newSimilarWord st) = [] \<or> trim (newSimilarWord st) \<in> set (similarWords st)
      \<longrightarrow> handleAddSimilarWord st = st)
   \<and> (trim (newSimilarWord st) \<noteq> [] \<and> trim (newSimilarWord st) \<notin> set (similarWords st)
      \<longrightarrow> similarWords (handleAddSimilarWord st) = similarWords st @ [trim (newSimilarWord st)])
   \<and> (similarWords st = [] \<longrightarrow> distinct (similarWords (addSimilarWords submitted st)))"
proof (intro conjI impI)
  assume "trim (newSimilarWord st) = [] \<or> trim (newSimilarWord st) \<in> set (similarWords st)"
  then show "handleAddSimilarWord st = st"
    by (auto simp: handleAddSimilarWord_def)
next
  assume "trim (newSimilarWord st) \<noteq> [] \<and> trim (newSimilarWord st) \<notin> set (similarWords st)"
  then show "similarWords (handleAddSimilarWord st) = similarWords st @ [trim (newSimilarWord st)]"
    by (simp add: handleAddSimilarWord_def)
next
  assume "similarWords st = []"
  then show "distinct (similarWords (addSimilarWords submitted st))"
    by (intro addSimilarWords_distinct) simp
qed

theorem handleAddSimilarWord_appends_new_only_witness:
  "similarWords (handleAddSimilarWord shelf) = [''x'', ''y'']
   \<and> handleAddSimilarWord (typeSimilarWord ''x '' shelf) = typeSimilarWord ''x '' shelf
   \<and> handleAddSimilarWord (typeSimilarWord ''  '' shelf) = typeSimilarWord ''  '' shelf
   \<and> distinct (similarWords (addSimilarWords [''p'', '' p'', ''q''] initial_state))"
  using handleAddSimilarWord_appends_new_only [of shelf "[]"]
    handleAddSimilarWord_appends_new_only [of "typeSimilarWord ''x '' shelf" "[]"]
    handleAddSimilarWord_appends_new_only [of "typeSimilarWord ''  '' shelf" "[]"]
    handleAddSimilarWord_appends_new_only [of initial_state "[''p'', '' p'', ''q'']"]
  by (simp add: shelf_def typeSimilarWord_def initial_state_def trim_def isWhiteSpace_def whiteSpace_def)

end
